theory Spec2Isabelle
  imports Complex_Main "HOL-Library.AList"
begin

section \<open>Data model of the download queue\<close>

text \<open>
  The types follow \<^verbatim>\<open>IDownloadItem\<close>, \<^verbatim>\<open>IQueueDownloadOpts\<close> and
  \<^verbatim>\<open>IDownloadsState\<close>. A JavaScript \<^verbatim>\<open>number\<close> that holds a rank or an identifier is an
  \<^typ>\<open>int\<close>: ranks are integer-valued (they start at 0 and only move by steps of one),
  and the arithmetic on them is that of doubles (\<open>js_number\<close> below). A number that is only
  stored (progress, speed) is a \<^typ>\<open>real\<close>. An optional field is an \<^typ>\<open>'a option\<close>,
  \<^term>\<open>None\<close> standing for \<^verbatim>\<open>undefined\<close> and \<^verbatim>\<open>null\<close>.
\<close>

datatype DownloadReason = Install | Reinstall | Update | Revert | Heal

record Game =
  game_id :: int
  title :: string

record Upload =
  upload_id :: int
  filename :: string
  upload_buildId :: "int option"
  updatedAt :: int

record Build =
  build_id :: int

record IDownloadItem =
  item_id :: string
  reason :: DownloadReason
  game :: Game
  caveId :: "string option"
  upload :: "Upload option"
  build :: "Build option"
  progress :: real
  finished :: "bool option"
  rank :: int
  bps :: "real option"
  eta :: "real option"
  startedAt :: "int option"
  finishedAt :: "int option"
  err :: "string option"
  errStack :: "string option"

text \<open>
  \<^verbatim>\<open>Partial<IDownloadItem>\<close> as the reducers build it: \<^verbatim>\<open>id\<close> is always given; every other
  field is absent (\<^term>\<open>None\<close>) or present with a value, which for an optional field may
  itself be \<^verbatim>\<open>undefined\<close> (an object spread copies such a property all the same).
\<close>

record ItemPatch =
  p_id :: string
  p_rank :: "int option"
  p_finished :: "bool option option"
  p_finishedAt :: "int option option"
  p_progress :: "real option"
  p_eta :: "real option option"
  p_bps :: "real option option"
  p_err :: "string option option"
  p_errStack :: "string option option"

definition patch :: "string \<Rightarrow> ItemPatch" where
  "patch i = \<lparr>p_id = i, p_rank = None, p_finished = None, p_finishedAt = None,
     p_progress = None, p_eta = None, p_bps = None, p_err = None, p_errStack = None\<rparr>"

text \<open>
  The \<^verbatim>\<open>items\<close> object is an association list: JavaScript keeps the keys of an object
  in insertion order, an assignment to an existing key keeps its place
  (\<^const>\<open>AList.update\<close>) and \<^verbatim>\<open>omit\<close> drops the key (\<^const>\<open>AList.delete\<close>). The ids
  are generated uuids, so none is an integer-like key, which JavaScript would enumerate
  first. The field
  \<^verbatim>\<open>itemIdsByGameId\<close> is recomputed from \<^verbatim>\<open>items\<close> by the selector after every action
  and is not stored here.
\<close>

record IDownloadsState =
  items :: "(string \<times> IDownloadItem) list"
  paused :: bool
  restored :: bool
  speeds :: "real list"

definition SPEED_DATA_POINT_COUNT :: nat where
  "SPEED_DATA_POINT_COUNT = 60"

definition initialState :: IDownloadsState where
  "initialState = \<lparr>items = [], paused = True, restored = False,
     speeds = replicate SPEED_DATA_POINT_COUNT 0\<rparr>"

definition values_of :: "(string \<times> IDownloadItem) list \<Rightarrow> IDownloadItem list" where
  "values_of its = map snd its"

text \<open>\<^verbatim>\<open>{...item, ...record}\<close>: the properties of the record override those of the item.\<close>

definition spread :: "IDownloadItem \<Rightarrow> ItemPatch \<Rightarrow> IDownloadItem" where
  "spread item record = item
     \<lparr>item_id := p_id record,
      rank := (case p_rank record of None \<Rightarrow> rank item | Some r \<Rightarrow> r),
      finished := (case p_finished record of None \<Rightarrow> finished item | Some f \<Rightarrow> f),
      finishedAt := (case p_finishedAt record of None \<Rightarrow> finishedAt item | Some t \<Rightarrow> t),
      progress := (case p_progress record of None \<Rightarrow> progress item | Some x \<Rightarrow> x),
      eta := (case p_eta record of None \<Rightarrow> eta item | Some x \<Rightarrow> x),
      bps := (case p_bps record of None \<Rightarrow> bps item | Some x \<Rightarrow> x),
      err := (case p_err record of None \<Rightarrow> err item | Some e \<Rightarrow> e),
      errStack := (case p_errStack record of None \<Rightarrow> errStack item | Some e \<Rightarrow> e)\<rparr>"

definition updateSingle :: "IDownloadsState \<Rightarrow> ItemPatch \<Rightarrow> IDownloadsState" where
  "updateSingle state record =
     (case map_of (items state) (p_id record) of
        None \<Rightarrow> state
      | Some item \<Rightarrow>
          state\<lparr>items := AList.update (p_id record) (spread item record) (items state)\<rparr>)"

text \<open>\<^verbatim>\<open>indexBy(items, "id")\<close>: a later item with the same id replaces an earlier one.\<close>

definition index :: "IDownloadItem list \<Rightarrow> (string \<times> IDownloadItem) list" where
  "index its = fold (\<lambda>i acc. AList.update (item_id i) i acc) its []"

text \<open>
  \<^verbatim>\<open>min(list, x => x.rank)\<close> and \<^verbatim>\<open>max(list, x => x.rank)\<close> of underscore on a list
  that is not empty: the first element is taken, and a later one replaces it only when its
  rank is strictly smaller (strictly larger).
\<close>

fun min_by_rank :: "IDownloadItem \<Rightarrow> IDownloadItem list \<Rightarrow> IDownloadItem" where
  "min_by_rank r [] = r"
| "min_by_rank r (v # vs) = min_by_rank (if rank v < rank r then v else r) vs"

fun max_by_rank :: "IDownloadItem \<Rightarrow> IDownloadItem list \<Rightarrow> IDownloadItem" where
  "max_by_rank r [] = r"
| "max_by_rank r (v # vs) = max_by_rank (if rank v > rank r then v else r) vs"

text \<open>
  The result of an addition or subtraction of integer-valued doubles: the integer result
  rounded to the nearest double, ties to the even significand. A double has a significand
  of 53 bits, so every integer up to \<open>2\<^sup>5\<^sup>3\<close> in magnitude is exact, and beyond that only
  the multiples of the quantum are. (Adding or subtracting one never overflows.)
\<close>

function quantum :: "int \<Rightarrow> int" where
  "quantum m = (if m < 2 ^ 53 then 1 else 2 * quantum (m div 2))"
  by pat_completeness auto
termination
  by (relation "measure nat") auto

declare quantum.simps [simp del]

definition js_number :: "int \<Rightarrow> int" where
  "js_number n =
     (let m = \<bar>n\<bar> in
      if m \<le> 2 ^ 53 then n
      else let q = quantum m;
               lo = (m div q) * q;
               r = m mod q;
               rounded = (if 2 * r < q then lo
                          else if q < 2 * r then lo + q
                          else if even (m div q) then lo else lo + q)
           in sgn n * rounded)"

definition higherPriorityRank :: "IDownloadsState \<Rightarrow> int" where
  "higherPriorityRank state =
     (case values_of (items state) of
        [] \<Rightarrow> 0
      | v # vs \<Rightarrow> js_number (rank (min_by_rank v vs) - 1))"

definition lowerPriorityRank :: "IDownloadsState \<Rightarrow> int" where
  "lowerPriorityRank state =
     (case values_of (items state) of
        [] \<Rightarrow> 0
      | v # vs \<Rightarrow> js_number (rank (max_by_rank v vs) + 1))"

text \<open>The ranks of a state are safe integers, of magnitude below \<open>2\<^sup>5\<^sup>3\<close>.\<close>

definition safe_ranks :: "IDownloadsState \<Rightarrow> bool" where
  "safe_ranks state =
     (\<forall>p \<in> set (items state). - (2 ^ 53) < rank (snd p) \<and> rank (snd p) < 2 ^ 53)"

text \<open>
  Modelled from the spec: \<^verbatim>\<open>excludeGame\<close> of \<^verbatim>\<open>reactors/downloads/getters\<close>, which is not
  among the sources. An enqueue supersedes the items of the same game: the caller prunes
  the older items for that game id before the insert.
\<close>

definition excludeGame :: "IDownloadsState \<Rightarrow> int \<Rightarrow> IDownloadItem list" where
  "excludeGame state gameId =
     filter (\<lambda>i. game_id (game i) \<noteq> gameId) (values_of (items state))"

subsection \<open>The reducers\<close>

text \<open>
  One function for each handler registered with \<^verbatim>\<open>on(...)\<close>. A handler returns the next
  state; the handler of \<^verbatim>\<open>retryDownload\<close> alone has a bare \<^verbatim>\<open>return;\<close>, so its result is an
  option, \<^term>\<open>None\<close> standing for \<^verbatim>\<open>undefined\<close>.
\<close>

definition clearGameDownloads :: "int \<Rightarrow> IDownloadsState \<Rightarrow> IDownloadsState" where
  "clearGameDownloads gameId state = state\<lparr>items := index (excludeGame state gameId)\<rparr>"

definition downloadStarted :: "IDownloadItem \<Rightarrow> IDownloadsState \<Rightarrow> IDownloadsState" where
  "downloadStarted item state =
     (let rk = higherPriorityRank state in
      state\<lparr>items := AList.update (item_id item) (item\<lparr>rank := rk\<rparr>)
                         (index (excludeGame state (game_id (game item))))\<rparr>)"

definition retryDownload :: "string \<Rightarrow> IDownloadsState \<Rightarrow> IDownloadsState option" where
  "retryDownload i state =
     (case map_of (items state) i of
        None \<Rightarrow> None
      | Some item \<Rightarrow>
          Some (updateSingle state
            ((patch i)\<lparr>p_rank := Some (lowerPriorityRank state), p_finished := Some (Some False)\<rparr>)))"

definition downloadProgress :: "ItemPatch \<Rightarrow> IDownloadsState \<Rightarrow> IDownloadsState" where
  "downloadProgress record state = updateSingle state record"

definition downloadEnded ::
  "string \<Rightarrow> int option \<Rightarrow> string option \<Rightarrow> string option \<Rightarrow> IDownloadsState \<Rightarrow> IDownloadsState" where
  "downloadEnded i fin_at e e_stack state =
     updateSingle state
       ((patch i)\<lparr>p_finished := Some (Some True), p_finishedAt := Some fin_at,
          p_progress := Some 0, p_eta := Some (Some 0), p_bps := Some (Some 0),
          p_err := Some e, p_errStack := Some e_stack\<rparr>)"

definition downloadSpeedDatapoint :: "real \<Rightarrow> IDownloadsState \<Rightarrow> IDownloadsState" where
  "downloadSpeedDatapoint x state =
     (let xs = speeds state @ [x]
      in state\<lparr>speeds := drop (length xs - SPEED_DATA_POINT_COUNT) xs\<rparr>)"

definition prioritizeDownload :: "string \<Rightarrow> IDownloadsState \<Rightarrow> IDownloadsState" where
  "prioritizeDownload i state =
     updateSingle state ((patch i)\<lparr>p_rank := Some (higherPriorityRank state)\<rparr>)"

definition downloadDiscarded :: "string \<Rightarrow> IDownloadsState \<Rightarrow> IDownloadsState" where
  "downloadDiscarded i state =
     (case map_of (items state) i of
        None \<Rightarrow> state
      | Some item \<Rightarrow> state\<lparr>items := AList.delete i (items state)\<rparr>)"

definition pauseDownloads :: "IDownloadsState \<Rightarrow> IDownloadsState" where
  "pauseDownloads state = state\<lparr>paused := True\<rparr>"

definition resumeDownloads :: "IDownloadsState \<Rightarrow> IDownloadsState" where
  "resumeDownloads state =
     state\<lparr>items := index (map (\<lambda>i. i\<lparr>bps := Some 0\<rparr>) (values_of (items state))),
           paused := False\<rparr>"

definition downloadsRestored :: "IDownloadsState \<Rightarrow> IDownloadsState" where
  "downloadsRestored state = state\<lparr>restored := True\<rparr>"

section \<open>The download watcher\<close>

text \<open>
  Modelled from the spec: \<^verbatim>\<open>getActiveDownload\<close> of \<^verbatim>\<open>reactors/downloads/getters\<close>, which is
  not among the sources. Selection picks the non-finished item with the numerically
  smallest rank; among equal ranks the first one in the order of \<^verbatim>\<open>items\<close> is kept.
\<close>

definition is_finished :: "IDownloadItem \<Rightarrow> bool" where
  "is_finished i = (finished i = Some True)"

definition getActiveDownload :: "IDownloadsState \<Rightarrow> IDownloadItem option" where
  "getActiveDownload state =
     (case filter (\<lambda>i. \<not> is_finished i) (values_of (items state)) of
        [] \<Rightarrow> None
      | v # vs \<Rightarrow> Some (min_by_rank v vs))"

text \<open>
  Modelled from the spec: the error kinds of \<^verbatim>\<open>types/errors\<close> and their tests
  \<^verbatim>\<open>isCancelled\<close> and \<^verbatim>\<open>isAborted\<close>, which are not among the sources. Cancellation and
  abort are distinguished error kinds; anything else is a genuine failure with a message
  and a stack. The argument of the tests is the caught error, absent when the work
  returned.
\<close>

datatype TaskError = Cancelled | Aborted | Failure string string

definition isCancelled :: "TaskError option \<Rightarrow> bool" where
  "isCancelled e = (e = Some Cancelled)"

definition isAborted :: "TaskError option \<Rightarrow> bool" where
  "isAborted e = (e = Some Aborted)"

fun error_message :: "TaskError \<Rightarrow> string" where
  "error_message Cancelled = ''cancelled''"
| "error_message Aborted = ''aborted''"
| "error_message (Failure m st) = m"

text \<open>\<^verbatim>\<open>"" + error\<close> and \<^verbatim>\<open>error.message || "" + error\<close>.\<close>

fun error_to_string :: "TaskError \<Rightarrow> string" where
  "error_to_string Cancelled = ''Error: cancelled''"
| "error_to_string Aborted = ''Error: aborted''"
| "error_to_string (Failure m st) = (if m = [] then ''Error'' else ''Error: '' @ m)"

definition error_text :: "TaskError \<Rightarrow> string" where
  "error_text e = (if error_message e = [] then error_to_string e else error_message e)"

fun error_stack :: "TaskError \<Rightarrow> string" where
  "error_stack Cancelled = ''cancelled''"
| "error_stack Aborted = ''aborted''"
| "error_stack (Failure m st) = st"

record IProgressInfo =
  pi_progress :: real
  pi_bps :: real
  pi_eta :: real

text \<open>
  What the watcher does to the outside is recorded in a trace: the actions it dispatches
  to the store, the signal it emits on a context, the progress bar of the window, the
  folders it wipes, and the call of \<^verbatim>\<open>performDownload\<close>.
\<close>

datatype Effect =
    Dispatch_downloadProgress ItemPatch
  | Dispatch_downloadDiscarded string
  | Dispatch_downloadEnded string "string option" "string option"
  | Emit_graceful_cancel nat
  | SetProgressBar real
  | WipeDownloadFolder IDownloadItem
  | WipeInstallFolder IDownloadItem
  | PerformDownload nat IDownloadItem

text \<open>
  A handle pairs the item with its context; contexts are numbered in the order of their
  creation. \<^verbatim>\<open>watcherState\<close> holds the current handle, the handles by item id and the ids
  marked as discarded.
\<close>

record IDownloadHandle =
  h_item :: IDownloadItem
  h_ctx :: nat

record WatcherState =
  current :: "IDownloadHandle option"
  handles :: "(string \<times> IDownloadHandle) list"
  discarded :: "string set"

text \<open>
  One call of \<^verbatim>\<open>start\<close> is a task: its item, whether \<^verbatim>\<open>performDownload\<close> has settled (the
  \<^verbatim>\<open>finally\<close> block has run) and the local flag \<^verbatim>\<open>interrupted\<close>. The task of context \<open>c\<close>
  is \<open>tasks ! c\<close>.
\<close>

record Task =
  t_item :: IDownloadItem
  t_settled :: bool
  t_interrupted :: bool

record World =
  downloads :: IDownloadsState
  watcher :: WatcherState
  tasks :: "Task list"
  has_window :: bool
  trace :: "Effect list"

definition emit :: "Effect \<Rightarrow> World \<Rightarrow> World" where
  "emit e w = w\<lparr>trace := trace w @ [e]\<rparr>"

definition setProgress :: "real \<Rightarrow> World \<Rightarrow> World" where
  "setProgress alpha w = (if has_window w then emit (SetProgressBar alpha) w else w)"

definition cancelCurrent :: "World \<Rightarrow> World" where
  "cancelCurrent w =
     (case current (watcher w) of
        None \<Rightarrow> w
      | Some handle \<Rightarrow>
          (emit (Emit_graceful_cancel (h_ctx handle)) w)
            \<lparr>watcher := (watcher w)\<lparr>current := None\<rparr>\<rparr>)"

text \<open>\<^verbatim>\<open>start\<close> up to the point where it awaits \<^verbatim>\<open>performDownload\<close>.\<close>

definition start :: "IDownloadItem \<Rightarrow> World \<Rightarrow> World" where
  "start item w0 =
     (let w = cancelCurrent w0;
          ctx = length (tasks w);
          handle = \<lparr>h_item = item, h_ctx = ctx\<rparr>
      in (emit (PerformDownload ctx item) w)
           \<lparr>watcher := (watcher w)
              \<lparr>current := Some handle,
               handles := AList.update (item_id item) handle (handles (watcher w))\<rparr>,
            tasks := tasks w @
              [\<lparr>t_item = item, t_settled = False, t_interrupted = False\<rparr>]\<rparr>)"

definition truthy_string :: "string option \<Rightarrow> bool" where
  "truthy_string s = (case s of None \<Rightarrow> False | Some x \<Rightarrow> x \<noteq> [])"

definition cleanupDiscarded :: "IDownloadItem \<Rightarrow> World \<Rightarrow> World" where
  "cleanupDiscarded item w =
     (let w1 = emit (WipeDownloadFolder item) w
      in if reason item = Install \<and> truthy_string (err item)
         then emit (WipeInstallFolder item) w1 else w1)"

text \<open>The throttled listener of \<^verbatim>\<open>progress\<close> events that \<^verbatim>\<open>start\<close> registers on context \<open>c\<close>.\<close>

definition on_progress :: "nat \<Rightarrow> IProgressInfo \<Rightarrow> World \<Rightarrow> World" where
  "on_progress c ev w =
     (if c < length (tasks w) \<and> \<not> t_interrupted (tasks w ! c)
      then let record = (patch (item_id (t_item (tasks w ! c))))
                 \<lparr>p_progress := Some (pi_progress ev), p_bps := Some (Some (pi_bps ev)),
                  p_eta := Some (Some (pi_eta ev))\<rparr>
           in (emit (Dispatch_downloadProgress record) w)
                \<lparr>downloads := downloadProgress record (downloads w)\<rparr>
      else w)"

text \<open>
  The \<^verbatim>\<open>catch\<close> and \<^verbatim>\<open>finally\<close> blocks of \<^verbatim>\<open>start\<close>, run when \<^verbatim>\<open>performDownload\<close> settles
  with the caught error, if any.
\<close>

definition finally_block :: "IDownloadItem \<Rightarrow> TaskError option \<Rightarrow> World \<Rightarrow> World" where
  "finally_block item error w0 =
     (let w = w0\<lparr>watcher := (watcher w0)
                 \<lparr>handles := AList.delete (item_id item) (handles (watcher w0))\<rparr>\<rparr>;
          cancelled = isCancelled error;
          aborted = isAborted error
      in if cancelled \<or> aborted then
           (if item_id item \<in> discarded (watcher w) \<or> aborted then
              (let w1 = (if aborted
                         then (emit (Dispatch_downloadDiscarded (item_id item)) w)
                                \<lparr>downloads := downloadDiscarded (item_id item) (downloads w)\<rparr>
                         else w);
                   w2 = w1\<lparr>watcher := (watcher w1)
                              \<lparr>discarded := discarded (watcher w1) - {item_id item}\<rparr>\<rparr>
               in cleanupDiscarded item w2)
            else w)
         else
           (let e = map_option error_text error;
                e_stack = map_option error_stack error;
                freshItem = (case map_of (items (downloads w)) (item_id item) of
                               Some storeItem \<Rightarrow> storeItem | None \<Rightarrow> item)
            in (emit (Dispatch_downloadEnded (item_id freshItem) e e_stack) w)
                 \<lparr>downloads := downloadEnded (item_id freshItem) None e e_stack (downloads w)\<rparr>))"

definition settle :: "nat \<Rightarrow> TaskError option \<Rightarrow> World \<Rightarrow> World" where
  "settle c error w =
     (if c < length (tasks w) \<and> \<not> t_settled (tasks w ! c)
      then let t = tasks w ! c;
               interrupted = (isCancelled error \<or> isAborted error);
               w1 = w\<lparr>tasks := (tasks w)[c := t\<lparr>t_settled := True, t_interrupted := interrupted\<rparr>]\<rparr>
           in finally_block (t_item t) error w1
      else w)"

definition updateDownloadState :: "World \<Rightarrow> World" where
  "updateDownloadState w =
     (let downloadsState = downloads w in
      if paused downloadsState then
        setProgress (- 1) (if current (watcher w) \<noteq> None then cancelCurrent w else w)
      else
        (case getActiveDownload downloadsState of
           Some activeDownload \<Rightarrow>
             (let w1 = setProgress (progress activeDownload) w in
              case current (watcher w1) of
                None \<Rightarrow> start activeDownload w1
              | Some h \<Rightarrow>
                  if item_id (h_item h) \<noteq> item_id activeDownload
                  then start activeDownload w1 else w1)
         | None \<Rightarrow>
             (let w1 = setProgress (- 1) w in
              if current (watcher w1) \<noteq> None then cancelCurrent w1 else w1)))"

definition discardDownload :: "string \<Rightarrow> World \<Rightarrow> World" where
  "discardDownload i w =
     (case map_of (items (downloads w)) i of
        None \<Rightarrow> w
      | Some item \<Rightarrow>
          (let w1 = (if map_of (handles (watcher w)) i \<noteq> None
                     then w\<lparr>watcher := (watcher w)\<lparr>discarded := insert i (discarded (watcher w))\<rparr>\<rparr>
                     else cleanupDiscarded item w)
           in (emit (Dispatch_downloadDiscarded i) w1)
                \<lparr>downloads := downloadDiscarded i (downloads w1)\<rparr>))"

text \<open>
  The operations on the queue and the events of the running downloads. Each one is
  handled to completion before the next (the scheduler is single-threaded).
\<close>

datatype Event =
    Enqueue IDownloadItem
  | Discard string
  | Pause
  | Resume
  | Prioritize string
  | Tick
  | Progress nat IProgressInfo
  | Settle nat "TaskError option"

fun step :: "Event \<Rightarrow> World \<Rightarrow> World" where
  "step (Enqueue item) w = w\<lparr>downloads := downloadStarted item (downloads w)\<rparr>"
| "step (Discard i) w = discardDownload i w"
| "step Pause w = w\<lparr>downloads := pauseDownloads (downloads w)\<rparr>"
| "step Resume w = w\<lparr>downloads := resumeDownloads (downloads w)\<rparr>"
| "step (Prioritize i) w = w\<lparr>downloads := prioritizeDownload i (downloads w)\<rparr>"
| "step Tick w = updateDownloadState w"
| "step (Progress c ev) w = on_progress c ev w"
| "step (Settle c error) w = settle c error w"

definition run :: "Event list \<Rightarrow> World \<Rightarrow> World" where
  "run evs w = fold step evs w"

text \<open>
  The state at launch: the initial state of the reducer, no handle, no download running.
\<close>

definition initialWorld :: "bool \<Rightarrow> World" where
  "initialWorld win =
     \<lparr>downloads = initialState,
      watcher = \<lparr>current = None, handles = [], discarded = {}\<rparr>,
      tasks = [], has_window = win, trace = []\<rparr>"

text \<open>
  Two readings of a trace. The pending context is the one for which \<^verbatim>\<open>performDownload\<close>
  was called last, as long as it has not been sent \<^verbatim>\<open>graceful-cancel\<close> since. A trace is
  well cancelled when every call of \<^verbatim>\<open>performDownload\<close> in it comes at a moment when no
  context is pending: the download started before it, if any, has been sent
  \<^verbatim>\<open>graceful-cancel\<close> first.
\<close>

fun pending_of :: "nat option \<Rightarrow> Effect list \<Rightarrow> nat option" where
  "pending_of p [] = p"
| "pending_of p (PerformDownload c item # tr) = pending_of (Some c) tr"
| "pending_of p (Emit_graceful_cancel c # tr) = pending_of (if p = Some c then None else p) tr"
| "pending_of p (e # tr) = pending_of p tr"

fun well_cancelled :: "nat option \<Rightarrow> Effect list \<Rightarrow> bool" where
  "well_cancelled p [] = True"
| "well_cancelled p (PerformDownload c item # tr) = (p = None \<and> well_cancelled (Some c) tr)"
| "well_cancelled p (Emit_graceful_cancel c # tr) =
     well_cancelled (if p = Some c then None else p) tr"
| "well_cancelled p (e # tr) = well_cancelled p tr"

fun neutral :: "Effect \<Rightarrow> bool" where
  "neutral (PerformDownload c item) = False"
| "neutral (Emit_graceful_cancel c) = False"
| "neutral e = True"

text \<open>What a tick writes to the progress bar, and the signal it sends to the current handle.\<close>

definition bar :: "World \<Rightarrow> real \<Rightarrow> Effect list" where
  "bar w alpha = (if has_window w then [SetProgressBar alpha] else [])"

definition cancel_signal :: "World \<Rightarrow> Effect list" where
  "cancel_signal w =
     (case current (watcher w) of None \<Rightarrow> [] | Some h \<Rightarrow> [Emit_graceful_cancel (h_ctx h)])"

text \<open>
  The invariant of the watcher: the trace is well cancelled, and the pending context is
  that of the current handle.
\<close>

definition in_step :: "World \<Rightarrow> bool" where
  "in_step w = (well_cancelled None (trace w)
     \<and> pending_of None (trace w) = map_option h_ctx (current (watcher w)))"

subsection \<open>Example queues\<close>

definition ex_game :: "int \<Rightarrow> Game" where
  "ex_game n = \<lparr>game_id = n, title = ''game''\<rparr>"

definition ex_item :: "string \<Rightarrow> int \<Rightarrow> IDownloadItem" where
  "ex_item i n = \<lparr>item_id = i, reason = Install, game = ex_game n, caveId = None,
     upload = None, build = None, progress = 0, finished = None, rank = 0, bps = None,
     eta = None, startedAt = None, finishedAt = None, err = None, errStack = None\<rparr>"

definition ex_queue :: IDownloadsState where
  "ex_queue = downloadStarted (ex_item ''b'' 2) (downloadStarted (ex_item ''a'' 1) initialState)"

definition ex_events :: "Event list" where
  "ex_events = [Enqueue (ex_item ''a'' 1), Resume, Tick, Enqueue (ex_item ''b'' 2), Tick]"

definition ex_lagging_events :: "Event list" where
  "ex_lagging_events = [Enqueue (ex_item ''a'' 1), Resume, Tick, Enqueue (ex_item ''b'' 2)]"

definition ex_paused_events :: "Event list" where
  "ex_paused_events = [Enqueue (ex_item ''a'' 1), Resume, Tick, Pause]"

definition ex_finished_events :: "Event list" where
  "ex_finished_events = [Enqueue (ex_item ''a'' 1), Resume, Tick, Settle 0 None]"

definition ex_started :: World where
  "ex_started = run [Enqueue (ex_item ''a'' 1), Resume, Tick] (initialWorld True)"

definition ex_stale_events :: "Event list" where
  "ex_stale_events = [Enqueue (ex_item ''a'' 1), Resume, Tick, Settle 0 (Some Cancelled), Tick]"

text \<open>A queue in which an item has the rank \<open>- 2\<^sup>5\<^sup>3\<close>.\<close>

definition deep_queue :: IDownloadsState where
  "deep_queue = initialState
     \<lparr>items := [(''a'', ex_item ''a'' 1),
                (''b'', (ex_item ''b'' 2)\<lparr>rank := - 9007199254740992\<rparr>)]\<rparr>"

section \<open>The deploy engine\<close>

text \<open>
  The destination directory as \<^verbatim>\<open>deploy\<close> sees it: the relative paths that
  \<^verbatim>\<open>sf.glob("**", {cwd: destPath, dot: true, nodir: true, ignore: sf.globIgnore})\<close> lists, in
  the order of the listing, and the receipt file \<^verbatim>\<open>.itch/receipt.json\<close>, which is kept
  apart from the listing. The receipt file is missing, or its content does not parse to an
  object (\<^verbatim>\<open>JSON.parse\<close> throws, or yields \<^verbatim>\<open>null\<close> and reading \<^verbatim>\<open>receipt.files\<close> throws), or
  it parses to a receipt whose \<^verbatim>\<open>files\<close> may be absent.
\<close>

record 'c Receipt =
  r_cave :: "'c option"
  r_files :: "string list option"

datatype 'c ReceiptFile = Missing | Unparsable | Parsed "'c Receipt"

record 'c Dest =
  d_files :: "string list"
  d_receipt :: "'c ReceiptFile"

record ISingleResult =
  deployed :: "bool option"

record IDeployResult =
  status :: string

text \<open>
  Modelled from the spec: the file operations \<^verbatim>\<open>sf.glob\<close>, \<^verbatim>\<open>sf.readFile\<close>,
  \<^verbatim>\<open>sf.writeFile\<close>, \<^verbatim>\<open>butler.mkdir\<close>, \<^verbatim>\<open>butler.wipe\<close> and \<^verbatim>\<open>butler.ditto\<close>, which are not
  among the sources. \<^verbatim>\<open>wipe\<close> deletes a path, \<^verbatim>\<open>ditto\<close> recursively merges staging into the
  destination, overwriting existing files. Each call may also fail; whether it does is
  given by the environment, as is the answer of the \<^verbatim>\<open>onSingle\<close> handler (it returns a
  result, possibly \<^verbatim>\<open>undefined\<close>, or throws) and what a failed write leaves on disk. A failed
  merge has copied some of the files. The orphans are wiped through \<^verbatim>\<open>bluebird.map\<close> with a
  concurrency of 4: once a wipe has failed no further wipe is started, so which wipes were
  started in a failing run is given by the environment too.
\<close>

datatype SingleOutcome = Single_throws string | Single_returns "ISingleResult option"

datatype DittoOutcome = Ditto_ok | Ditto_fails "string list"

datatype 'c WriteOutcome = Write_ok | Write_fails "'c ReceiptFile"

record 'c DeployEnv =
  onSingle :: "string \<Rightarrow> SingleOutcome"
  mkdir_ok :: bool
  glob_ok :: bool
  wipe_ok :: "string \<Rightarrow> bool"
  wipe_started :: "string \<Rightarrow> bool"
  ditto :: DittoOutcome
  write_receipt :: "'c WriteOutcome"

definition singlenoop :: "string \<Rightarrow> SingleOutcome" where
  "singlenoop onlyFile = Single_returns (Some \<lparr>deployed = None\<rparr>)"

definition wipe_all :: "(string \<Rightarrow> bool) \<Rightarrow> string list \<Rightarrow> string list \<Rightarrow> string list" where
  "wipe_all ok dinosaurs fs = filter (\<lambda>f. \<not> (f \<in> set dinosaurs \<and> ok f)) fs"

definition merge_into :: "string list \<Rightarrow> string list \<Rightarrow> string list" where
  "merge_into fs staged = fs @ filter (\<lambda>f. f \<notin> set fs) (remdups staged)"

text \<open>\<^verbatim>\<open>difference(array, other)\<close> of underscore keeps the order of \<^verbatim>\<open>array\<close>.\<close>

definition difference :: "string list \<Rightarrow> string list \<Rightarrow> string list" where
  "difference xs ys = filter (\<lambda>x. x \<notin> set ys) xs"

text \<open>The \<^verbatim>\<open>try\<close> block that reads the receipt: \<^verbatim>\<open>destFiles\<close> stays empty when it throws.\<close>

definition read_receipt :: "'c ReceiptFile \<Rightarrow> string list" where
  "read_receipt rf =
     (case rf of
        Parsed receipt \<Rightarrow> (case r_files receipt of Some fs \<Rightarrow> fs | None \<Rightarrow> [])
      | _ \<Rightarrow> [])"

definition ok_result :: IDeployResult where
  "ok_result = \<lparr>status = ''ok''\<rparr>"

text \<open>
  The previous file set: the files of the receipt, or the listing of the destination when
  the receipt gave none; \<^term>\<open>None\<close> when that listing throws.
\<close>

definition previous_files :: "bool \<Rightarrow> 'c Dest \<Rightarrow> string list option" where
  "previous_files globs d =
     (let destFiles = read_receipt (d_receipt d)
      in if destFiles = [] then (if globs then Some (d_files d) else None)
         else Some destFiles)"

text \<open>\<^verbatim>\<open>deploy\<close> from \<^verbatim>\<open>butler.mkdir\<close> on; \<^verbatim>\<open>Inl\<close> is the error it throws.\<close>

definition deploy_rest ::
  "'c DeployEnv \<Rightarrow> 'c option \<Rightarrow> string list \<Rightarrow> 'c Dest \<Rightarrow> 'c Dest \<times> (string + IDeployResult)" where
  "deploy_rest env cave stageFiles d =
     (if \<not> mkdir_ok env then (d, Inl ''mkdir'')
      else case previous_files (glob_ok env) d of
        None \<Rightarrow> (d, Inl ''glob'')
      | Some destFiles \<Rightarrow>
          (let dinosaurs = difference destFiles stageFiles;
               d1 = d\<lparr>d_files := wipe_all (wipe_ok env) dinosaurs (d_files d)\<rparr>
           in if \<exists>f \<in> set dinosaurs. \<not> wipe_ok env f
              then (d\<lparr>d_files := wipe_all (\<lambda>f. wipe_started env f \<and> wipe_ok env f)
                                   dinosaurs (d_files d)\<rparr>,
                    Inl ''wipe'')
              else (case ditto env of
                      Ditto_fails copied \<Rightarrow>
                        (d1\<lparr>d_files := merge_into (d_files d1) copied\<rparr>, Inl ''ditto'')
                    | Ditto_ok \<Rightarrow>
                        (let d2 = d1\<lparr>d_files := merge_into (d_files d1) stageFiles\<rparr> in
                         case write_receipt env of
                           Write_fails left \<Rightarrow> (d2\<lparr>d_receipt := left\<rparr>, Inl ''write'')
                         | Write_ok \<Rightarrow>
                             (d2\<lparr>d_receipt :=
                                  Parsed \<lparr>r_cave = cave, r_files = Some stageFiles\<rparr>\<rparr>,
                              Inr ok_result)))))"

text \<open>
  \<^verbatim>\<open>deploy\<close>, given the listing of the staging directory. The handler is asked when staging
  holds exactly one file; when it answers \<^verbatim>\<open>deployed\<close>, \<^verbatim>\<open>deploy\<close> returns at once.
\<close>

definition handled_upstream :: "SingleOutcome \<Rightarrow> bool" where
  "handled_upstream r =
     (case r of Single_returns (Some res) \<Rightarrow> deployed res = Some True | _ \<Rightarrow> False)"

definition deploy ::
  "'c DeployEnv \<Rightarrow> 'c option \<Rightarrow> string list \<Rightarrow> 'c Dest \<Rightarrow> 'c Dest \<times> (string + IDeployResult)" where
  "deploy env cave stageFiles d =
     (case stageFiles of
        [onlyFile] \<Rightarrow>
          (case onSingle env onlyFile of
             Single_throws e \<Rightarrow> (d, Inl e)
           | Single_returns res \<Rightarrow>
               if handled_upstream (Single_returns res) then (d, Inr ok_result)
               else deploy_rest env cave stageFiles d)
      | _ \<Rightarrow> deploy_rest env cave stageFiles d)"

definition short_circuits :: "'c DeployEnv \<Rightarrow> string list \<Rightarrow> bool" where
  "short_circuits env stageFiles =
     (case stageFiles of [onlyFile] \<Rightarrow> handled_upstream (onSingle env onlyFile) | _ \<Rightarrow> False)"

definition unreadable :: "'c ReceiptFile \<Rightarrow> bool" where
  "unreadable rf =
     (case rf of
        Missing \<Rightarrow> True
      | Unparsable \<Rightarrow> True
      | Parsed receipt \<Rightarrow> r_files receipt = None \<or> r_files receipt = Some [])"

text \<open>
  Every operation that \<^verbatim>\<open>deploy\<close> calls on the given staging files and destination
  succeeds, the reading of the receipt apart.
\<close>

definition handler_throws :: "'c DeployEnv \<Rightarrow> string list \<Rightarrow> bool" where
  "handler_throws env stageFiles =
     (case stageFiles of
        [onlyFile] \<Rightarrow> (case onSingle env onlyFile of Single_throws e \<Rightarrow> True | _ \<Rightarrow> False)
      | _ \<Rightarrow> False)"

definition operations_succeed :: "'c DeployEnv \<Rightarrow> string list \<Rightarrow> 'c Dest \<Rightarrow> bool" where
  "operations_succeed env stageFiles d =
     (\<not> handler_throws env stageFiles \<and> mkdir_ok env \<and> glob_ok env
      \<and> (\<forall>f \<in> set (d_files d) \<union> set (read_receipt (d_receipt d)). wipe_ok env f)
      \<and> ditto env = Ditto_ok \<and> write_receipt env = Write_ok)"

subsection \<open>Example environments and destinations\<close>

definition always :: "string \<Rightarrow> bool" where
  "always f = True"

definition says_deployed :: "string \<Rightarrow> SingleOutcome" where
  "says_deployed onlyFile = Single_returns (Some \<lparr>deployed = Some True\<rparr>)"

definition smooth_env :: "unit DeployEnv" where
  "smooth_env = \<lparr>onSingle = singlenoop, mkdir_ok = True, glob_ok = True, wipe_ok = always,
     wipe_started = always, ditto = Ditto_ok, write_receipt = Write_ok\<rparr>"

definition upstream_env :: "unit DeployEnv" where
  "upstream_env = smooth_env\<lparr>onSingle := says_deployed\<rparr>"

definition receipt_of :: "string list \<Rightarrow> unit ReceiptFile" where
  "receipt_of fs = Parsed \<lparr>r_cave = None, r_files = Some fs\<rparr>"

definition dest_abc :: "unit Dest" where
  "dest_abc = \<lparr>d_files = [''a'', ''b'', ''c''], d_receipt = receipt_of [''a'', ''b'', ''c'']\<rparr>"

definition dest_fresh :: "unit Dest" where
  "dest_fresh = \<lparr>d_files = [], d_receipt = Missing\<rparr>"

definition dest_no_receipt :: "unit Dest" where
  "dest_no_receipt = \<lparr>d_files = [''a'', ''b'', ''c''], d_receipt = Unparsable\<rparr>"

definition failing_merge_env :: "unit DeployEnv" where
  "failing_merge_env = smooth_env\<lparr>ditto := Ditto_fails [''b'']\<rparr>"

section \<open>The task runner\<close>

datatype TaskName = Task_install | Task_uninstall | Task_configure | Task_launch

datatype TaskEffect =
    Dispatch_taskStarted string TaskName int int
  | Register_task string
  | Dispatch_taskProgress string IProgressInfo
  | Remove_task string
  | Logger_close
  | Warn string
  | Call_onError TaskError string
  | Dispatch_taskEnded string "string option"

text \<open>
  What the work does, as far as \<^verbatim>\<open>asTask\<close> can tell: the progress events that pass the
  throttle, the text it logs, and the error it throws, if any. The error callback, when it
  is called, returns or throws.
\<close>

record WorkOutcome =
  w_progress :: "IProgressInfo list"
  w_log :: string
  w_thrown :: "TaskError option"

datatype CallbackOutcome = Callback_returns | Callback_throws TaskError

record IAsTaskOpts =
  name :: TaskName
  gameId :: int
  work :: WorkOutcome
  onError :: "(TaskError \<Rightarrow> string \<Rightarrow> CallbackOutcome) option"

text \<open>
  \<^verbatim>\<open>asTask\<close>, with the generated id, the clock and whether closing the logger throws. The
  result is \<^verbatim>\<open>Inl\<close> when the promise of \<^verbatim>\<open>asTask\<close> is rejected.
\<close>

definition asTask ::
  "string \<Rightarrow> int \<Rightarrow> bool \<Rightarrow> IAsTaskOpts \<Rightarrow> TaskEffect list \<times> (TaskError + unit)" where
  "asTask uuid now close_throws opts =
     (let t0 = [Dispatch_taskStarted uuid (name opts) (gameId opts) now, Register_task uuid];
          t1 = t0 @ map (Dispatch_taskProgress uuid) (w_progress (work opts));
          error = w_thrown (work opts);
          t2 = t1 @ [Remove_task uuid, Logger_close]
                  @ (if close_throws then [Warn ''Couldn't close logger''] else []);
          ended = Dispatch_taskEnded uuid (map_option error_to_string error)
      in case error of
           None \<Rightarrow> (t2 @ [ended], Inr ())
         | Some e \<Rightarrow>
             if isCancelled (Some e) then (t2 @ [Warn ''cancelled'', ended], Inr ())
             else if isAborted (Some e) then (t2 @ [Warn ''aborted'', ended], Inr ())
             else (case onError opts of
                     None \<Rightarrow> (t2 @ [Warn ''threw'', ended], Inr ())
                   | Some cb \<Rightarrow>
                       (case cb e (w_log (work opts)) of
                          Callback_returns \<Rightarrow>
                            (t2 @ [Warn ''threw'', Call_onError e (w_log (work opts)), ended],
                             Inr ())
                        | Callback_throws e' \<Rightarrow>
                            (t2 @ [Warn ''threw'', Call_onError e (w_log (work opts))],
                             Inl e'))))"

text \<open>The error callback, if \<^verbatim>\<open>asTask\<close> calls it, returns.\<close>

definition callback_returns :: "IAsTaskOpts \<Rightarrow> bool" where
  "callback_returns opts =
     (case (onError opts, w_thrown (work opts)) of
        (Some cb, Some e) \<Rightarrow>
          (e = Cancelled \<or> e = Aborted \<or> cb e (w_log (work opts)) = Callback_returns)
      | _ \<Rightarrow> True)"

fun is_taskEnded :: "TaskEffect \<Rightarrow> bool" where
  "is_taskEnded (Dispatch_taskEnded i e) = True"
| "is_taskEnded x = False"

fun is_onError :: "TaskEffect \<Rightarrow> bool" where
  "is_onError (Call_onError e l) = True"
| "is_onError x = False"

subsection \<open>An example: the work fails and the error callback throws\<close>

definition rejecting :: "TaskError \<Rightarrow> string \<Rightarrow> CallbackOutcome" where
  "rejecting e text = Callback_throws (Failure ''modal failed'' [])"

definition ex_failing_opts :: IAsTaskOpts where
  "ex_failing_opts = \<lparr>name = Task_launch, gameId = 1,
     work = \<lparr>w_progress = [], w_log = ''log'', w_thrown = Some (Failure ''boom'' ''stack'')\<rparr>,
     onError = Some rejecting\<rparr>"

section \<open>The update checker\<close>

text \<open>
  The cave record as \<^verbatim>\<open>_doCheckForGameUpdate\<close> reads it. Timestamps are integers; a
  missing or invalid \<^verbatim>\<open>installedAt\<close> is \<^term>\<open>None\<close>. A test such as \<^verbatim>\<open>cave.buildId\<close> on an
  optional number holds when the number is present and not zero.
\<close>

record IUser =
  user_id :: int
  username :: string

record ICaveRecord =
  cr_id :: string
  cr_installedBy :: "IUser option"
  cr_launchable :: bool
  cr_gameId :: "int option"
  cr_uploadId :: "int option"
  cr_buildId :: "int option"
  cr_installedAt :: "int option"

definition truthy_num :: "int option \<Rightarrow> bool" where
  "truthy_num x = (case x of None \<Rightarrow> False | Some n \<Rightarrow> n \<noteq> 0)"

record IUpdateCheckResult =
  r_err :: "string option"
  r_game :: "Game option"
  r_hasUpgrade :: "bool option"

record IGameUpdate =
  u_game :: Game
  u_recentUploads :: "Upload list"
  u_downloadKey :: "int option"
  u_incremental :: bool
  u_upgradePath :: "string list option"

datatype CheckEffect =
    Dispatch_statusMessage string string
  | Dispatch_gameUpdateAvailable string IGameUpdate

datatype UploadError = IncorrectUserForClaim | NetworkError string | OtherError string

text \<open>
  Modelled from the spec: the collaborators \<^verbatim>\<open>fetch.gameLazily\<close>, \<^verbatim>\<open>findUpload\<close> and
  \<^verbatim>\<open>findUpgradePath\<close>, which are not among the sources, and the part of the store the check
  reads. Each call returns or throws (\<^verbatim>\<open>Inl\<close>); computing the patch path may itself fail
  with a network or server error.
\<close>

text \<open>
  The call \<^verbatim>\<open>getUserMarket()\<close>: the module neither imports nor declares the identifier,
  so evaluating it throws a \<^verbatim>\<open>ReferenceError\<close>.
\<close>

definition getUserMarket :: "string + unit" where
  "getUserMarket = Inl ''ReferenceError: getUserMarket is not defined''"

record CheckEnv =
  me :: "IUser option"
  fetch_game :: "string + Game option"
  tasksForGame :: "TaskName list"
  findUpload :: "UploadError + Upload list \<times> int option"
  findUpgradePath :: "Upload \<Rightarrow> int \<Rightarrow> string + string list \<times> int"

definition skipped :: IUpdateCheckResult where
  "skipped = \<lparr>r_err = None, r_game = None, r_hasUpgrade = Some False\<rparr>"

definition failed :: "string \<Rightarrow> IUpdateCheckResult" where
  "failed e = \<lparr>r_err = Some e, r_game = None, r_hasUpgrade = None\<rparr>"

text \<open>
  The end of the \<^verbatim>\<open>try\<close> block, from \<^verbatim>\<open>if (recentUploads.length === 0)\<close> on, with the
  local variable \<^verbatim>\<open>hasUpgrade\<close>.
\<close>

definition by_timestamp ::
  "bool \<Rightarrow> ICaveRecord \<Rightarrow> Game \<Rightarrow> Upload list \<Rightarrow> int option \<Rightarrow> IUpdateCheckResult
     \<Rightarrow> CheckEffect list \<times> (string + IUpdateCheckResult)" where
  "by_timestamp hasUpgrade cave g recentUploads downloadKey returnVars =
     (let announce = Dispatch_gameUpdateAvailable (cr_id cave)
            \<lparr>u_game = g, u_recentUploads = recentUploads, u_downloadKey = downloadKey,
             u_incremental = False, u_upgradePath = None\<rparr>
      in case recentUploads of
           [] \<Rightarrow> ([], Inr returnVars)
         | [upl] \<Rightarrow>
             (let differentUpload = (Some (upload_id upl) \<noteq> cr_uploadId cave);
                  wentWharf = (truthy_num (upload_buildId upl) \<and> \<not> truthy_num (cr_buildId cave))
              in if hasUpgrade \<or> differentUpload \<or> wentWharf
                 then ([announce], Inr (returnVars\<lparr>r_hasUpgrade := Some hasUpgrade\<rparr>))
                 else ([], Inr returnVars))
         | _ \<Rightarrow> ([announce], Inr (returnVars\<lparr>r_hasUpgrade := Some True\<rparr>)))"

text \<open>The \<^verbatim>\<open>try\<close> block once \<^verbatim>\<open>findUpload\<close> has returned uploads.\<close>

definition decide ::
  "CheckEnv \<Rightarrow> ICaveRecord \<Rightarrow> bool \<Rightarrow> Game \<Rightarrow> Upload list \<Rightarrow> int option \<Rightarrow> IUpdateCheckResult
     \<Rightarrow> CheckEffect list \<times> (string + IUpdateCheckResult)" where
  "decide env cave noisy g uploads downloadKey returnVars =
     (let installedAt = (case cr_installedAt cave of None \<Rightarrow> 0 | Some t \<Rightarrow> t);
          recentUploads = filter (\<lambda>u. updatedAt u > installedAt) uploads;
          otherwise = by_timestamp False cave g recentUploads downloadKey returnVars
      in case (cr_uploadId cave, cr_buildId cave) of
           (Some uid, Some bid) \<Rightarrow>
             if uid \<noteq> 0 \<and> bid \<noteq> 0 then
               (case find (\<lambda>u. upload_id u = uid) uploads of
                  None \<Rightarrow> otherwise
                | Some upl \<Rightarrow>
                    if \<not> truthy_num (upload_buildId upl) then otherwise
                    else if upload_buildId upl \<noteq> Some bid then
                      (let said = (if noisy
                                   then [Dispatch_statusMessage ''status.game_update.found'' (title g)]
                                   else [])
                       in case findUpgradePath env upl bid of
                            Inr (upgradePath, totalSize) \<Rightarrow>
                              (said @ [Dispatch_gameUpdateAvailable (cr_id cave)
                                 \<lparr>u_game = g, u_recentUploads = [upl],
                                  u_downloadKey = downloadKey, u_incremental = True,
                                  u_upgradePath = Some upgradePath\<rparr>],
                               Inr (returnVars\<lparr>r_hasUpgrade := Some True\<rparr>))
                          | Inl e \<Rightarrow> (said, Inr (failed e)))
                    else ([], Inr returnVars))
             else otherwise
         | _ \<Rightarrow> otherwise)"

text \<open>\<^verbatim>\<open>_doCheckForGameUpdate\<close> from \<^verbatim>\<open>fetch.gameLazily\<close> on.\<close>

definition after_market ::
  "CheckEnv \<Rightarrow> ICaveRecord \<Rightarrow> bool \<Rightarrow> CheckEffect list \<times> (string + IUpdateCheckResult)" where
  "after_market env cave noisy =
     (case fetch_game env of
        Inl e \<Rightarrow> ([], Inr (failed e))
      | Inr None \<Rightarrow> ([], Inl ''TypeError'')
      | Inr (Some g) \<Rightarrow>
          (let returnVars = \<lparr>r_err = None, r_game = Some g, r_hasUpgrade = Some False\<rparr>
           in if Task_launch \<in> set (tasksForGame env) then ([], Inr returnVars)
              else (case findUpload env of
                      Inl IncorrectUserForClaim \<Rightarrow> ([], Inr returnVars)
                    | Inl (NetworkError code) \<Rightarrow>
                        ([], Inr (failed (''Network error ('' @ code @ '')'')))
                    | Inl (OtherError e) \<Rightarrow> ([], Inr (failed e))
                    | Inr (uploads, downloadKey) \<Rightarrow>
                        if uploads = [] then ([], Inr (failed ''No uploads found''))
                        else decide env cave noisy g uploads downloadKey returnVars)))"

text \<open>
  \<^verbatim>\<open>_doCheckForGameUpdate\<close>. The result is \<^verbatim>\<open>Inl\<close> when the function throws.
\<close>

definition doCheckForGameUpdate ::
  "CheckEnv \<Rightarrow> ICaveRecord \<Rightarrow> bool \<Rightarrow> CheckEffect list \<times> (string + IUpdateCheckResult)" where
  "doCheckForGameUpdate env cave noisy =
     (if (case cr_installedBy cave of
            Some installedBy \<Rightarrow>
              (case me env of Some m \<Rightarrow> user_id installedBy \<noteq> user_id m | None \<Rightarrow> False)
          | None \<Rightarrow> False)
      then ([], Inr skipped)
      else if \<not> cr_launchable cave then ([], Inr skipped)
      else if \<not> truthy_num (cr_gameId cave) then ([], Inr skipped)
      else (case getUserMarket of
              Inl e \<Rightarrow> ([], Inl e)
            | Inr market \<Rightarrow> after_market env cave noisy))"

text \<open>The uploads updated after the cave was installed.\<close>

definition recent :: "ICaveRecord \<Rightarrow> Upload list \<Rightarrow> Upload list" where
  "recent cave uploads =
     filter (\<lambda>u. updatedAt u > (case cr_installedAt cave of None \<Rightarrow> 0 | Some t \<Rightarrow> t)) uploads"

subsection \<open>Example caves and uploads\<close>

definition ex_upload :: "int \<Rightarrow> int option \<Rightarrow> int \<Rightarrow> Upload" where
  "ex_upload i b t = \<lparr>upload_id = i, filename = ''game.zip'', upload_buildId = b, updatedAt = t\<rparr>"




section \<open>Launching a cave\<close>

record ICave =
  c_id :: string
  morphing :: bool
  c_upload :: "Upload option"
  c_build :: "Build option"

record IQueueDownloadOpts =
  q_reason :: DownloadReason
  q_game :: Game
  q_caveId :: "string option"
  q_upload :: "Upload option"
  q_build :: "Build option"

datatype LaunchEffect =
    Launch_statusMessage string string
  | Dispatch_queueDownload IQueueDownloadOpts
  | Log_launching string
  | Make_butler_instance
  | Call_Launch ICave Game

text \<open>
  Modelled from the spec: the launch path itself, which runs in the external subprocess:
  \<^verbatim>\<open>getGameCredentials\<close> yields credentials or nothing, and the launched game exits, is
  stopped on request, or the call fails.
\<close>

datatype LaunchOutcome = Exited | Stopped | Launch_failed string

definition performLaunch ::
  "bool \<Rightarrow> LaunchOutcome \<Rightarrow> ICave \<Rightarrow> Game \<Rightarrow> LaunchEffect list \<times> (TaskError + unit)" where
  "performLaunch has_credentials outcome cave g =
     (if morphing cave then
        ([Launch_statusMessage ''status.repairing_game'' (title g),
          Dispatch_queueDownload
            \<lparr>q_reason = Heal, q_game = g, q_caveId = Some (c_id cave),
             q_upload = c_upload cave, q_build = c_build cave\<rparr>],
         Inr ())
      else if \<not> has_credentials then
        ([Log_launching (title g)], Inl (Failure ''no game credentials, can't launch'' []))
      else
        ([Log_launching (title g), Make_butler_instance, Call_Launch cave g],
         (case outcome of
            Exited \<Rightarrow> Inr ()
          | Stopped \<Rightarrow> Inl Cancelled
          | Launch_failed e \<Rightarrow> Inl (Failure e []))))"

fun launches :: "LaunchEffect \<Rightarrow> bool" where
  "launches Make_butler_instance = True"
| "launches (Call_Launch cave g) = True"
| "launches e = False"

definition ex_morphing_cave :: ICave where
  "ex_morphing_cave = \<lparr>c_id = ''cave-1'', morphing = True,
     c_upload = Some (ex_upload 3 (Some 7) 100), c_build = Some \<lparr>build_id = 7\<rparr>\<rparr>"

section \<open>Properties of the reducers\<close>

lemma min_by_rank_le: "x \<in> set (v # vs) \<Longrightarrow> rank (min_by_rank v vs) \<le> rank x"
proof (induction vs arbitrary: v x)
  case Nil then show ?case by simp
next
  case (Cons a vs)
  have le: "rank (min_by_rank (if rank a < rank v then a else v) vs) \<le> rank (if rank a < rank v then a else v)"
    using Cons.IH[of "(if rank a < rank v then a else v)" "(if rank a < rank v then a else v)"] by simp
  from Cons.prems consider "x = v" | "x = a" | "x \<in> set vs" by auto
  then show ?case
  proof cases
    case 1 with le show ?thesis by (simp split: if_splits)
  next
    case 2 with le show ?thesis by (simp split: if_splits)
  next
    case 3 then show ?thesis using Cons.IH[of x "(if rank a < rank v then a else v)"] by simp
  qed
qed

lemma max_by_rank_ge: "x \<in> set (v # vs) \<Longrightarrow> rank x \<le> rank (max_by_rank v vs)"
proof (induction vs arbitrary: v x)
  case Nil then show ?case by simp
next
  case (Cons a vs)
  have le: "rank (if rank a > rank v then a else v) \<le> rank (max_by_rank (if rank a > rank v then a else v) vs)"
    using Cons.IH[of "(if rank a > rank v then a else v)" "(if rank a > rank v then a else v)"] by simp
  from Cons.prems consider "x = v" | "x = a" | "x \<in> set vs" by auto
  then show ?case
  proof cases
    case 1 with le show ?thesis by (simp split: if_splits)
  next
    case 2 with le show ?thesis by (simp split: if_splits)
  next
    case 3 then show ?thesis using Cons.IH[of x "(if rank a > rank v then a else v)"] by simp
  qed
qed

lemma min_by_rank_mem: "min_by_rank v vs \<in> set (v # vs)"
proof (induction vs arbitrary: v)
  case Nil then show ?case by simp
next
  case (Cons a vs)
  show ?case using Cons.IH[of "if rank a < rank v then a else v"] by (auto split: if_splits)
qed

lemma max_by_rank_mem: "max_by_rank v vs \<in> set (v # vs)"
proof (induction vs arbitrary: v)
  case Nil then show ?case by simp
next
  case (Cons a vs)
  show ?case using Cons.IH[of "if rank a > rank v then a else v"] by (auto split: if_splits)
qed

lemma js_number_exact: "\<bar>n\<bar> \<le> 2 ^ 53 \<Longrightarrow> js_number n = n"
  by (simp add: js_number_def Let_def)

lemma higherPriorityRank_less:
  assumes "safe_ranks state" "(j, other) \<in> set (items state)"
  shows "higherPriorityRank state < rank other"
proof -
  from assms(2) have m: "other \<in> set (values_of (items state))" by (force simp: values_of_def)
  then obtain v vs where e: "values_of (items state) = v # vs"
    by (cases "values_of (items state)") auto
  with m have le: "rank (min_by_rank v vs) \<le> rank other" using min_by_rank_le[of other v vs] by simp
  have "min_by_rank v vs \<in> set (values_of (items state))" using min_by_rank_mem[of v vs] e by simp
  then obtain k where "(k, min_by_rank v vs) \<in> set (items state)" by (auto simp: values_of_def)
  with assms(1) have "- (2 ^ 53) < rank (min_by_rank v vs)" "rank (min_by_rank v vs) < 2 ^ 53"
    by (auto simp: safe_ranks_def)
  then have "js_number (rank (min_by_rank v vs) - 1) = rank (min_by_rank v vs) - 1"
    by (intro js_number_exact) simp
  with e le show ?thesis by (simp add: higherPriorityRank_def)
qed

lemma lowerPriorityRank_greater:
  assumes "safe_ranks state" "(j, other) \<in> set (items state)"
  shows "rank other < lowerPriorityRank state"
proof -
  from assms(2) have m: "other \<in> set (values_of (items state))" by (force simp: values_of_def)
  then obtain v vs where e: "values_of (items state) = v # vs"
    by (cases "values_of (items state)") auto
  with m have le: "rank other \<le> rank (max_by_rank v vs)" using max_by_rank_ge[of other v vs] by simp
  have "max_by_rank v vs \<in> set (values_of (items state))" using max_by_rank_mem[of v vs] e by simp
  then obtain k where "(k, max_by_rank v vs) \<in> set (items state)" by (auto simp: values_of_def)
  with assms(1) have "- (2 ^ 53) < rank (max_by_rank v vs)" "rank (max_by_rank v vs) < 2 ^ 53"
    by (auto simp: safe_ranks_def)
  then have "js_number (rank (max_by_rank v vs) + 1) = rank (max_by_rank v vs) + 1"
    by (intro js_number_exact) simp
  with e le show ?thesis by (simp add: lowerPriorityRank_def)
qed

lemma updateSingle_known:
  "map_of (items state) (p_id r) = Some item \<Longrightarrow>
   map_of (items (updateSingle state r)) = (map_of (items state))(p_id r \<mapsto> spread item r)"
  by (simp add: updateSingle_def update_conv')

lemma updateSingle_unknown:
  "map_of (items state) (p_id r) = None \<Longrightarrow> updateSingle state r = state"
  by (simp add: updateSingle_def)

lemma downloadDiscarded_map_of:
  "map_of (items (downloadDiscarded i st)) = (map_of (items st))(i := None)"
  by (auto simp: downloadDiscarded_def delete_conv' split: option.splits)

lemmas eval_defs = run_def initialWorld_def initialState_def downloadStarted_def
  higherPriorityRank_def values_of_def excludeGame_def index_def ex_item_def ex_game_def
  resumeDownloads_def pauseDownloads_def updateDownloadState_def getActiveDownload_def
  is_finished_def Let_def setProgress_def emit_def start_def cancelCurrent_def
  settle_def finally_block_def isCancelled_def isAborted_def
  cleanupDiscarded_def downloadDiscarded_def downloadEnded_def updateSingle_def spread_def
  patch_def truthy_string_def SPEED_DATA_POINT_COUNT_def error_text_def js_number_def

lemma ex_queue_items:
  "items ex_queue = [(''a'', ex_item ''a'' 1), (''b'', (ex_item ''b'' 2)\<lparr>rank := - 1\<rparr>)]"
  by (simp add: ex_queue_def eval_defs)

lemma ex_queue_safe: "safe_ranks ex_queue"
  by (simp add: safe_ranks_def ex_queue_items ex_item_def)

text \<open>
  Claim C2, amended. For every downloads state that contains the item with the given id
  and whose ranks are safe integers (of magnitude below \<open>2\<^sup>5\<^sup>3\<close>), \<^verbatim>\<open>prioritizeDownload\<close>
  gives that item a rank strictly less than the rank every item has at call time, and
  \<^verbatim>\<open>retryDownload\<close> (deprioritize) gives it a rank strictly greater than the rank every
  item has at call time and clears its \<^verbatim>\<open>finished\<close> flag.
\<close>

theorem rank_ordering_laws:
  assumes "map_of (items state) i = Some item" and "safe_ranks state"
  shows "(\<exists>item'. map_of (items (prioritizeDownload i state)) i = Some item'
            \<and> rank item' = higherPriorityRank state
            \<and> (\<forall>(j, other) \<in> set (items state). rank item' < rank other))
       \<and> (\<exists>state' item'. retryDownload i state = Some state'
            \<and> map_of (items state') i = Some item'
            \<and> rank item' = lowerPriorityRank state
            \<and> (\<forall>(j, other) \<in> set (items state). rank other < rank item')
            \<and> finished item' = Some False)"
proof (intro conjI)
  let ?r = "(patch i)\<lparr>p_rank := Some (higherPriorityRank state)\<rparr>"
  have id: "p_id ?r = i" by (simp add: patch_def)
  have "map_of (items (updateSingle state ?r)) i = Some (spread item ?r)"
    using updateSingle_known[of state ?r item] assms(1) id by simp
  moreover have "rank (spread item ?r) = higherPriorityRank state"
    by (simp add: spread_def patch_def)
  ultimately show "\<exists>item'. map_of (items (prioritizeDownload i state)) i = Some item'
            \<and> rank item' = higherPriorityRank state
            \<and> (\<forall>(j, other) \<in> set (items state). rank item' < rank other)"
    using higherPriorityRank_less[OF assms(2)] by (auto simp: prioritizeDownload_def)
next
  let ?r = "(patch i)\<lparr>p_rank := Some (lowerPriorityRank state), p_finished := Some (Some False)\<rparr>"
  have id: "p_id ?r = i" by (simp add: patch_def)
  have "map_of (items (updateSingle state ?r)) i = Some (spread item ?r)"
    using updateSingle_known[of state ?r item] assms(1) id by simp
  moreover have "rank (spread item ?r) = lowerPriorityRank state"
    "finished (spread item ?r) = Some False"
    by (simp_all add: spread_def patch_def)
  moreover have "retryDownload i state = Some (updateSingle state ?r)"
    using assms(1) by (simp add: retryDownload_def)
  ultimately show "\<exists>state' item'. retryDownload i state = Some state'
            \<and> map_of (items state') i = Some item'
            \<and> rank item' = lowerPriorityRank state
            \<and> (\<forall>(j, other) \<in> set (items state). rank other < rank item')
            \<and> finished item' = Some False"
    using lowerPriorityRank_greater[OF assms(2)] by auto
qed

theorem rank_ordering_laws_witness:
  "map_of (items ex_queue) ''a'' = Some (ex_item ''a'' 1)
   \<and> safe_ranks ex_queue
   \<and> (''b'', (ex_item ''b'' 2)\<lparr>rank := - 1\<rparr>) \<in> set (items ex_queue)
   \<and> rank ((ex_item ''b'' 2)\<lparr>rank := - 1\<rparr>) = - 1
   \<and> higherPriorityRank ex_queue = - 2
   \<and> lowerPriorityRank ex_queue = 1
   \<and> (\<exists>item'. map_of (items (prioritizeDownload ''a'' ex_queue)) ''a'' = Some item'
         \<and> rank item' = - 2)
   \<and> (\<exists>state' item'. retryDownload ''a'' ex_queue = Some state'
         \<and> map_of (items state') ''a'' = Some item' \<and> rank item' = 1
         \<and> finished item' = Some False)"
proof -
  have h: "map_of (items ex_queue) ''a'' = Some (ex_item ''a'' 1)"
    by (simp add: ex_queue_items)
  have hp: "higherPriorityRank ex_queue = - 2"
    by (simp add: higherPriorityRank_def values_of_def ex_queue_items ex_item_def js_number_def)
  have lp: "lowerPriorityRank ex_queue = 1"
    by (simp add: lowerPriorityRank_def values_of_def ex_queue_items ex_item_def js_number_def)
  from rank_ordering_laws[OF h ex_queue_safe] h hp lp ex_queue_safe show ?thesis
    by (auto simp: ex_queue_items)
qed

text \<open>
  The claim as first stated fails beyond the safe integers: when an item has the rank
  \<open>- 2\<^sup>5\<^sup>3\<close>, subtracting one gives the same double, so the prioritized item gets the
  rank of that item and not a smaller one.
\<close>

theorem rank_ordering_counterexample:
  "map_of (items deep_queue) ''a'' = Some (ex_item ''a'' 1)
   \<and> map_of (items deep_queue) ''b'' = Some ((ex_item ''b'' 2)\<lparr>rank := - 9007199254740992\<rparr>)
   \<and> map_option rank (map_of (items (prioritizeDownload ''a'' deep_queue)) ''a'')
        = Some (- 9007199254740992)"
  by (simp add: deep_queue_def initialState_def prioritizeDownload_def updateSingle_def patch_def
      spread_def higherPriorityRank_def values_of_def ex_item_def js_number_def Let_def
      quantum.simps update_conv')

text \<open>
  An id that is absent from \<^verbatim>\<open>items\<close>: the reducers that go through \<^verbatim>\<open>updateSingle\<close> and
  the reducer of \<^verbatim>\<open>downloadDiscarded\<close> return the state they were given, and the handler of
  \<^verbatim>\<open>discardDownload\<close> leaves the whole world as it is, trace included.
\<close>

lemma unknown_id_noop:
  assumes "map_of (items state) i = None"
  shows "p_id record = i \<Longrightarrow> downloadProgress record state = state"
    and "prioritizeDownload i state = state"
    and "downloadDiscarded i state = state"
    and "downloadEnded i t e es state = state"
  using assms
  by (simp_all add: downloadProgress_def prioritizeDownload_def downloadDiscarded_def
      downloadEnded_def updateSingle_def patch_def)

lemma discard_unknown_noop:
  "map_of (items (downloads w)) i = None \<Longrightarrow> discardDownload i w = w"
  by (simp add: discardDownload_def)

text \<open>
  Claim C10. Operations addressed to an id that is absent from \<^verbatim>\<open>items\<close> leave the
  downloads state unchanged. The reducer of \<^verbatim>\<open>retryDownload\<close> does not: for an unknown id
  it returns \<^verbatim>\<open>undefined\<close>, not the state, here on the initial state.
\<close>

theorem retry_unknown_returns_undefined:
  "map_of (items initialState) ''unknown'' = None
   \<and> retryDownload ''unknown'' initialState = None
   \<and> retryDownload ''unknown'' initialState \<noteq> Some initialState"
  by (simp add: retryDownload_def initialState_def)

section \<open>Properties of the download watcher\<close>

lemma emit_proj [simp]:
  "tasks (emit e w) = tasks w" "watcher (emit e w) = watcher w" "downloads (emit e w) = downloads w"
  "has_window (emit e w) = has_window w" "trace (emit e w) = trace w @ [e]"
  by (simp_all add: emit_def)

lemma setProgress_proj [simp]:
  "tasks (setProgress a w) = tasks w" "watcher (setProgress a w) = watcher w"
  "downloads (setProgress a w) = downloads w"
  by (simp_all add: setProgress_def)

lemma cleanupDiscarded_proj [simp]:
  "tasks (cleanupDiscarded i w) = tasks w" "watcher (cleanupDiscarded i w) = watcher w"
  "downloads (cleanupDiscarded i w) = downloads w"
  by (simp_all add: cleanupDiscarded_def Let_def)

lemma cancelCurrent_current [simp]: "current (watcher (cancelCurrent w)) = None"
  by (simp add: cancelCurrent_def split: option.splits)

lemma cancelCurrent_downloads [simp]: "downloads (cancelCurrent w) = downloads w"
  by (simp add: cancelCurrent_def split: option.splits)

lemma start_current [simp]:
  "current (watcher (start item w)) = Some \<lparr>h_item = item, h_ctx = length (tasks (cancelCurrent w))\<rparr>"
  by (simp add: start_def Let_def)

lemma start_downloads [simp]: "downloads (start item w) = downloads w"
  by (simp add: start_def Let_def)

lemma finally_block_proj [simp]:
  "tasks (finally_block item error w) = tasks w"
  "current (watcher (finally_block item error w)) = current (watcher w)"
  by (simp_all add: finally_block_def Let_def)

lemma discardDownload_proj [simp]:
  "tasks (discardDownload i w) = tasks w"
  "current (watcher (discardDownload i w)) = current (watcher w)"
  by (simp_all add: discardDownload_def Let_def split: option.splits)

lemma on_progress_proj [simp]:
  "tasks (on_progress c ev w) = tasks w"
  "watcher (on_progress c ev w) = watcher w"
  by (simp_all add: on_progress_def Let_def)

lemma getActiveDownload_Some:
  assumes "b \<in> set (values_of (items st))" "\<not> is_finished b"
  shows "\<exists>a. getActiveDownload st = Some a \<and> a \<in> set (values_of (items st)) \<and> \<not> is_finished a
           \<and> (\<forall>b' \<in> set (values_of (items st)). \<not> is_finished b' \<longrightarrow> rank a \<le> rank b')"
proof -
  let ?p = "filter (\<lambda>i. \<not> is_finished i) (values_of (items st))"
  from assms have "b \<in> set ?p" by simp
  then obtain v vs where e: "?p = v # vs" by (cases ?p) auto
  have m: "min_by_rank v vs \<in> set ?p" using min_by_rank_mem[of v vs] e by simp
  have le: "\<forall>b' \<in> set ?p. rank (min_by_rank v vs) \<le> rank b'"
    using min_by_rank_le[of _ v vs] e by simp
  have g: "getActiveDownload st = Some (min_by_rank v vs)" using e by (simp add: getActiveDownload_def)
  from m have "min_by_rank v vs \<in> set (values_of (items st))" "\<not> is_finished (min_by_rank v vs)"
    by simp_all
  with g le show ?thesis by simp
qed

lemma getActiveDownload_None:
  "\<forall>b \<in> set (values_of (items st)). is_finished b \<Longrightarrow> getActiveDownload st = None"
proof -
  assume "\<forall>b \<in> set (values_of (items st)). is_finished b"
  then have "filter (\<lambda>i. \<not> is_finished i) (values_of (items st)) = []" by (simp add: filter_empty_conv)
  then show ?thesis by (simp add: getActiveDownload_def)
qed

lemma cancelCurrent_tasks [simp]: "tasks (cancelCurrent w) = tasks w"
  by (simp add: cancelCurrent_def split: option.splits)

lemma cancelCurrent_window [simp]: "has_window (cancelCurrent w) = has_window w"
  by (simp add: cancelCurrent_def emit_def split: option.splits)

lemma bar_cancelCurrent [simp]: "bar (cancelCurrent w) a = bar w a"
  by (simp add: bar_def)

lemma cancelCurrent_trace: "trace (cancelCurrent w) = trace w @ cancel_signal w"
  by (simp add: cancelCurrent_def cancel_signal_def split: option.splits)

lemma setProgress_trace: "trace (setProgress a w) = trace w @ bar w a"
  by (simp add: setProgress_def bar_def)

lemma setProgress_signal [simp]: "cancel_signal (setProgress a w) = cancel_signal w"
  by (simp add: cancel_signal_def)

lemma start_trace:
  "trace (start item w) = trace w @ cancel_signal w @ [PerformDownload (length (tasks w)) item]"
  by (simp add: start_def Let_def cancelCurrent_trace)

lemma start_handle:
  "map_of (handles (watcher (start item w))) (item_id item)
     = Some \<lparr>h_item = item, h_ctx = length (tasks w)\<rparr>"
  by (simp add: start_def Let_def update_conv')

text \<open>What one run of the tick handler does, in each of its four branches.\<close>

lemma tick_paused:
  assumes "paused (downloads w)"
  shows "current (watcher (updateDownloadState w)) = None"
    and "trace (updateDownloadState w) = trace w @ cancel_signal w @ bar w (- 1)"
    and "tasks (updateDownloadState w) = tasks w"
  using assms
  by (auto simp: updateDownloadState_def setProgress_trace cancelCurrent_trace cancel_signal_def
      bar_def)

lemma tick_idle:
  assumes "\<not> paused (downloads w)" "getActiveDownload (downloads w) = None"
  shows "current (watcher (updateDownloadState w)) = None"
    and "trace (updateDownloadState w) = trace w @ bar w (- 1) @ cancel_signal w"
    and "tasks (updateDownloadState w) = tasks w"
  using assms
  by (auto simp: updateDownloadState_def Let_def setProgress_trace cancelCurrent_trace
      cancel_signal_def bar_def setProgress_def)

lemma tick_keeps:
  assumes "\<not> paused (downloads w)" "getActiveDownload (downloads w) = Some a"
    "current (watcher w) = Some h" "item_id (h_item h) = item_id a"
  shows "current (watcher (updateDownloadState w)) = Some h"
    and "trace (updateDownloadState w) = trace w @ bar w (progress a)"
    and "tasks (updateDownloadState w) = tasks w"
  using assms
  by (auto simp: updateDownloadState_def Let_def setProgress_trace)

lemma tick_starts:
  assumes "\<not> paused (downloads w)" "getActiveDownload (downloads w) = Some a"
    "\<forall>h. current (watcher w) = Some h \<longrightarrow> item_id (h_item h) \<noteq> item_id a"
  shows "current (watcher (updateDownloadState w)) = Some \<lparr>h_item = a, h_ctx = length (tasks w)\<rparr>"
    and "trace (updateDownloadState w)
           = trace w @ bar w (progress a) @ cancel_signal w @ [PerformDownload (length (tasks w)) a]"
    and "map_of (handles (watcher (updateDownloadState w))) (item_id a)
           = Some \<lparr>h_item = a, h_ctx = length (tasks w)\<rparr>"
  using assms
  by (auto simp: updateDownloadState_def Let_def setProgress_trace start_trace start_handle
      split: option.splits)

lemma tick_downloads [simp]: "downloads (updateDownloadState w) = downloads w"
  by (auto simp: updateDownloadState_def Let_def split: option.splits)

text \<open>Reading a trace that is extended.\<close>

lemma pending_of_append: "pending_of p (xs @ ys) = pending_of (pending_of p xs) ys"
  by (induction p xs rule: pending_of.induct) simp_all

lemma well_cancelled_append:
  "well_cancelled p (xs @ ys) \<longleftrightarrow> well_cancelled p xs \<and> well_cancelled (pending_of p xs) ys"
  by (induction p xs rule: well_cancelled.induct) simp_all

lemma neutral_read:
  "list_all neutral xs \<Longrightarrow> pending_of p xs = p \<and> well_cancelled p xs"
  by (induction p xs rule: pending_of.induct) simp_all

lemma bar_neutral: "list_all neutral (bar w a)"
  by (simp add: bar_def)

lemma cancel_signal_read:
  "pending_of p (cancel_signal w)
     = (if p = map_option h_ctx (current (watcher w)) then None else p)
   \<and> well_cancelled p (cancel_signal w)"
  by (auto simp: cancel_signal_def split: option.splits)

lemma in_step_neutral:
  assumes "in_step w" "trace w' = trace w @ new" "list_all neutral new"
    "current (watcher w') = current (watcher w)"
  shows "in_step w'"
  using assms neutral_read[of new "pending_of None (trace w)"]
  by (simp add: in_step_def pending_of_append well_cancelled_append)

lemma cleanupDiscarded_trace:
  "\<exists>new. trace (cleanupDiscarded item w) = trace w @ new \<and> list_all neutral new"
  by (auto simp: cleanupDiscarded_def Let_def emit_def)

lemma finally_block_trace:
  "\<exists>new. trace (finally_block item error w) = trace w @ new \<and> list_all neutral new"
  by (auto simp: finally_block_def Let_def cleanupDiscarded_def emit_def)

lemma settle_trace:
  "\<exists>new. trace (settle c error w) = trace w @ new \<and> list_all neutral new"
proof (cases "c < length (tasks w) \<and> \<not> t_settled (tasks w ! c)")
  case False
  then have "settle c error w = w" by (auto simp: settle_def)
  then show ?thesis by simp
next
  case True
  then show ?thesis
    using finally_block_trace[of "t_item (tasks w ! c)" error
        "w\<lparr>tasks := (tasks w)[c := (tasks w ! c)
            \<lparr>t_settled := True, t_interrupted := (isCancelled error \<or> isAborted error)\<rparr>]\<rparr>"]
    by (simp add: settle_def Let_def)
qed

lemma settle_current [simp]: "current (watcher (settle c error w)) = current (watcher w)"
  by (simp add: settle_def Let_def)

lemma discardDownload_trace:
  "\<exists>new. trace (discardDownload i w) = trace w @ new \<and> list_all neutral new"
  by (auto simp: discardDownload_def Let_def cleanupDiscarded_def emit_def split: option.splits)

lemma on_progress_trace:
  "\<exists>new. trace (on_progress c ev w) = trace w @ new \<and> list_all neutral new"
  by (auto simp: on_progress_def Let_def emit_def)

lemma in_step_extend:
  assumes "in_step w" "trace w' = trace w @ new"
    "well_cancelled (map_option h_ctx (current (watcher w))) new"
    "pending_of (map_option h_ctx (current (watcher w))) new = map_option h_ctx (current (watcher w'))"
  shows "in_step w'"
  using assms by (simp add: in_step_def pending_of_append well_cancelled_append)

lemma read_cancel_bar:
  "well_cancelled (map_option h_ctx (current (watcher w))) (cancel_signal w @ bar w a)
   \<and> pending_of (map_option h_ctx (current (watcher w))) (cancel_signal w @ bar w a) = None"
  by (cases "current (watcher w)") (simp_all add: cancel_signal_def bar_def)

lemma read_bar_cancel:
  "well_cancelled (map_option h_ctx (current (watcher w))) (bar w a @ cancel_signal w)
   \<and> pending_of (map_option h_ctx (current (watcher w))) (bar w a @ cancel_signal w) = None"
  by (cases "current (watcher w)") (simp_all add: cancel_signal_def bar_def)

lemma read_start:
  "well_cancelled (map_option h_ctx (current (watcher w)))
     (bar w a @ cancel_signal w @ [PerformDownload n item])
   \<and> pending_of (map_option h_ctx (current (watcher w)))
     (bar w a @ cancel_signal w @ [PerformDownload n item]) = Some n"
  by (cases "current (watcher w)") (simp_all add: cancel_signal_def bar_def)

lemma tick_in_step: "in_step w \<Longrightarrow> in_step (updateDownloadState w)"
proof -
  assume i: "in_step w"
  show ?thesis
  proof (cases "paused (downloads w)")
    case True
    show ?thesis
      by (rule in_step_extend[OF i tick_paused(2)[OF True]])
         (simp_all add: read_cancel_bar tick_paused(1)[OF True])
  next
    case False
    show ?thesis
    proof (cases "getActiveDownload (downloads w)")
      case None
      show ?thesis
        by (rule in_step_extend[OF i tick_idle(2)[OF False None]])
           (simp_all add: read_bar_cancel tick_idle(1)[OF False None])
    next
      case (Some a)
      show ?thesis
      proof (cases "\<exists>h. current (watcher w) = Some h \<and> item_id (h_item h) = item_id a")
        case True
        then obtain h where h: "current (watcher w) = Some h" "item_id (h_item h) = item_id a"
          by blast
        have c: "current (watcher (updateDownloadState w)) = current (watcher w)"
          using tick_keeps(1)[OF False Some h] h(1) by simp
        show ?thesis
          by (rule in_step_neutral[OF i tick_keeps(2)[OF False Some h] bar_neutral c])
      next
        case no: False
        then have nh: "\<forall>h. current (watcher w) = Some h \<longrightarrow> item_id (h_item h) \<noteq> item_id a"
          by blast
        show ?thesis
          by (rule in_step_extend[OF i tick_starts(2)[OF False Some nh]])
             (simp_all add: read_start tick_starts(1)[OF False Some nh])
      qed
    qed
  qed
qed

lemma step_in_step: "in_step w \<Longrightarrow> in_step (step ev w)"
proof -
  assume i: "in_step w"
  show ?thesis
  proof (cases ev)
    case (Enqueue item) with i show ?thesis by (simp add: in_step_def)
  next
    case (Discard d)
    obtain new where "trace (discardDownload d w) = trace w @ new" "list_all neutral new"
      using discardDownload_trace[of d w] by blast
    then have "in_step (discardDownload d w)" by (rule in_step_neutral[OF i]) simp
    with Discard show ?thesis by simp
  next
    case Pause with i show ?thesis by (simp add: in_step_def)
  next
    case Resume with i show ?thesis by (simp add: in_step_def)
  next
    case (Prioritize p) with i show ?thesis by (simp add: in_step_def)
  next
    case Tick with i show ?thesis by (simp add: tick_in_step)
  next
    case (Progress c ev')
    obtain new where "trace (on_progress c ev' w) = trace w @ new" "list_all neutral new"
      using on_progress_trace[of c ev' w] by blast
    then have "in_step (on_progress c ev' w)" by (rule in_step_neutral[OF i]) simp
    with Progress show ?thesis by simp
  next
    case (Settle c error)
    obtain new where "trace (settle c error w) = trace w @ new" "list_all neutral new"
      using settle_trace[of c error w] by blast
    then have "in_step (settle c error w)" by (rule in_step_neutral[OF i]) simp
    with Settle show ?thesis by simp
  qed
qed

lemma run_in_step: "in_step w \<Longrightarrow> in_step (run evs w)"
  unfolding run_def by (induction evs arbitrary: w) (simp_all add: step_in_step)

lemma initial_in_step: "in_step (initialWorld win)"
  by (simp add: in_step_def initialWorld_def)

lemmas watch_defs = eval_defs bar_def cancel_signal_def ex_lagging_events_def ex_paused_events_def
  ex_finished_events_def ex_events_def ex_stale_events_def update_conv'

lemma ex_lagging_facts:
  "\<not> paused (downloads (run ex_lagging_events (initialWorld True)))"
  "values_of (items (downloads (run ex_lagging_events (initialWorld True))))
     = [(ex_item ''a'' 1)\<lparr>bps := Some 0\<rparr>, (ex_item ''b'' 2)\<lparr>rank := - 1\<rparr>]"
  "getActiveDownload (downloads (run ex_lagging_events (initialWorld True)))
     = Some ((ex_item ''b'' 2)\<lparr>rank := - 1\<rparr>)"
  "current (watcher (run ex_lagging_events (initialWorld True)))
     = Some \<lparr>h_item = (ex_item ''a'' 1)\<lparr>bps := Some 0\<rparr>, h_ctx = 0\<rparr>"
  "trace (run ex_lagging_events (initialWorld True))
     = [SetProgressBar 0, PerformDownload 0 ((ex_item ''a'' 1)\<lparr>bps := Some 0\<rparr>)]"
  "length (tasks (run ex_lagging_events (initialWorld True))) = 1"
  "has_window (run ex_lagging_events (initialWorld True))"
  by (simp_all add: watch_defs)

lemma ex_paused_facts:
  "paused (downloads (run ex_paused_events (initialWorld True)))"
  "current (watcher (run ex_paused_events (initialWorld True)))
     = Some \<lparr>h_item = (ex_item ''a'' 1)\<lparr>bps := Some 0\<rparr>, h_ctx = 0\<rparr>"
  "trace (run ex_paused_events (initialWorld True))
     = [SetProgressBar 0, PerformDownload 0 ((ex_item ''a'' 1)\<lparr>bps := Some 0\<rparr>)]"
  "has_window (run ex_paused_events (initialWorld True))"
  by (simp_all add: watch_defs)

lemma ex_finished_facts:
  "\<not> paused (downloads (run ex_finished_events (initialWorld True)))"
  "values_of (items (downloads (run ex_finished_events (initialWorld True))))
     = [(ex_item ''a'' 1)\<lparr>finished := Some True, bps := Some 0, eta := Some 0\<rparr>]"
  "current (watcher (run ex_finished_events (initialWorld True)))
     = Some \<lparr>h_item = (ex_item ''a'' 1)\<lparr>bps := Some 0\<rparr>, h_ctx = 0\<rparr>"
  "trace (run ex_finished_events (initialWorld True))
     = [SetProgressBar 0, PerformDownload 0 ((ex_item ''a'' 1)\<lparr>bps := Some 0\<rparr>),
        Dispatch_downloadEnded ''a'' None None]"
  "has_window (run ex_finished_events (initialWorld True))"
  by (simp_all add: watch_defs)

text \<open>
  Claim C1, amended. For every sequence of operations on the queue (enqueue, discard,
  pause, resume, prioritize) and of events of the downloads (ticks, progress, settling),
  started from the initial state: \<^verbatim>\<open>performDownload\<close> is never called while the download
  started before it has not been sent \<^verbatim>\<open>graceful-cancel\<close>, so at most one started download
  has not been cancelled, and it is the one of the current handle. A tick on a paused
  queue, or on a queue with no non-finished item, sends \<^verbatim>\<open>graceful-cancel\<close> to the current
  handle and leaves none. A tick on an unpaused queue with a non-finished item selects as
  active download a non-finished item of the numerically smallest rank; when the current
  handle is already for that item it starts nothing, and otherwise it sends
  \<^verbatim>\<open>graceful-cancel\<close> to the current handle, then calls \<^verbatim>\<open>performDownload\<close> for the active
  download and makes its handle the current one.
\<close>

theorem one_uncancelled_download:
  "let w = run evs (initialWorld win); w' = step Tick w in
     well_cancelled None (trace w)
   \<and> pending_of None (trace w) = map_option h_ctx (current (watcher w))
   \<and> downloads w' = downloads w
   \<and> (paused (downloads w) \<longrightarrow>
        current (watcher w') = None \<and> trace w' = trace w @ cancel_signal w @ bar w (- 1))
   \<and> (\<not> paused (downloads w) \<longrightarrow>
        (\<forall>b \<in> set (values_of (items (downloads w))). \<not> is_finished b \<longrightarrow>
           (\<exists>a. getActiveDownload (downloads w) = Some a
              \<and> a \<in> set (values_of (items (downloads w))) \<and> \<not> is_finished a
              \<and> (\<forall>b' \<in> set (values_of (items (downloads w))).
                    \<not> is_finished b' \<longrightarrow> rank a \<le> rank b')
              \<and> (if \<exists>h. current (watcher w) = Some h \<and> item_id (h_item h) = item_id a
                  then current (watcher w') = current (watcher w)
                     \<and> trace w' = trace w @ bar w (progress a)
                  else current (watcher w') = Some \<lparr>h_item = a, h_ctx = length (tasks w)\<rparr>
                     \<and> trace w' = trace w @ bar w (progress a) @ cancel_signal w
                                     @ [PerformDownload (length (tasks w)) a]
                     \<and> map_of (handles (watcher w')) (item_id a)
                          = Some \<lparr>h_item = a, h_ctx = length (tasks w)\<rparr>))))
   \<and> (\<not> paused (downloads w) \<longrightarrow>
        (\<forall>b \<in> set (values_of (items (downloads w))). is_finished b) \<longrightarrow>
        current (watcher w') = None \<and> trace w' = trace w @ bar w (- 1) @ cancel_signal w)"
proof -
  define w where "w = run evs (initialWorld win)"
  define w' where "w' = step Tick w"
  have t: "w' = updateDownloadState w" by (simp add: w'_def)
  have i: "in_step w" unfolding w_def by (rule run_in_step) (rule initial_in_step)
  then have 1: "well_cancelled None (trace w)"
    and 2: "pending_of None (trace w) = map_option h_ctx (current (watcher w))"
    by (simp_all add: in_step_def)
  have 3: "downloads w' = downloads w" by (simp add: t)
  have 4: "paused (downloads w) \<longrightarrow>
        current (watcher w') = None \<and> trace w' = trace w @ cancel_signal w @ bar w (- 1)"
    using tick_paused(1,2)[of w] t by simp
  have 5: "\<not> paused (downloads w) \<longrightarrow>
        (\<forall>b \<in> set (values_of (items (downloads w))). \<not> is_finished b \<longrightarrow>
           (\<exists>a. getActiveDownload (downloads w) = Some a
              \<and> a \<in> set (values_of (items (downloads w))) \<and> \<not> is_finished a
              \<and> (\<forall>b' \<in> set (values_of (items (downloads w))).
                    \<not> is_finished b' \<longrightarrow> rank a \<le> rank b')
              \<and> (if \<exists>h. current (watcher w) = Some h \<and> item_id (h_item h) = item_id a
                  then current (watcher w') = current (watcher w)
                     \<and> trace w' = trace w @ bar w (progress a)
                  else current (watcher w') = Some \<lparr>h_item = a, h_ctx = length (tasks w)\<rparr>
                     \<and> trace w' = trace w @ bar w (progress a) @ cancel_signal w
                                     @ [PerformDownload (length (tasks w)) a]
                     \<and> map_of (handles (watcher w')) (item_id a)
                          = Some \<lparr>h_item = a, h_ctx = length (tasks w)\<rparr>)))"
  proof (intro impI ballI)
    fix b assume np: "\<not> paused (downloads w)"
      and b: "b \<in> set (values_of (items (downloads w)))" "\<not> is_finished b"
    from getActiveDownload_Some[OF b] obtain a where
      a: "getActiveDownload (downloads w) = Some a" "a \<in> set (values_of (items (downloads w)))"
         "\<not> is_finished a"
         "\<forall>b' \<in> set (values_of (items (downloads w))). \<not> is_finished b' \<longrightarrow> rank a \<le> rank b'"
      by blast
    have e: "if \<exists>h. current (watcher w) = Some h \<and> item_id (h_item h) = item_id a
                  then current (watcher w') = current (watcher w)
                     \<and> trace w' = trace w @ bar w (progress a)
                  else current (watcher w') = Some \<lparr>h_item = a, h_ctx = length (tasks w)\<rparr>
                     \<and> trace w' = trace w @ bar w (progress a) @ cancel_signal w
                                     @ [PerformDownload (length (tasks w)) a]
                     \<and> map_of (handles (watcher w')) (item_id a)
                          = Some \<lparr>h_item = a, h_ctx = length (tasks w)\<rparr>"
    proof (cases "\<exists>h. current (watcher w) = Some h \<and> item_id (h_item h) = item_id a")
      case True
      then obtain h where h: "current (watcher w) = Some h" "item_id (h_item h) = item_id a"
        by blast
      from tick_keeps(1,2)[OF np a(1) h] True h(1) t show ?thesis by simp
    next
      case False
      then have nh: "\<forall>h. current (watcher w) = Some h \<longrightarrow> item_id (h_item h) \<noteq> item_id a"
        by blast
      from tick_starts[OF np a(1) nh] False t show ?thesis by simp
    qed
    with a show "\<exists>a. getActiveDownload (downloads w) = Some a
              \<and> a \<in> set (values_of (items (downloads w))) \<and> \<not> is_finished a
              \<and> (\<forall>b' \<in> set (values_of (items (downloads w))).
                    \<not> is_finished b' \<longrightarrow> rank a \<le> rank b')
              \<and> (if \<exists>h. current (watcher w) = Some h \<and> item_id (h_item h) = item_id a
                  then current (watcher w') = current (watcher w)
                     \<and> trace w' = trace w @ bar w (progress a)
                  else current (watcher w') = Some \<lparr>h_item = a, h_ctx = length (tasks w)\<rparr>
                     \<and> trace w' = trace w @ bar w (progress a) @ cancel_signal w
                                     @ [PerformDownload (length (tasks w)) a]
                     \<and> map_of (handles (watcher w')) (item_id a)
                          = Some \<lparr>h_item = a, h_ctx = length (tasks w)\<rparr>)"
      by blast
  qed
  have 6: "\<not> paused (downloads w) \<longrightarrow>
        (\<forall>b \<in> set (values_of (items (downloads w))). is_finished b) \<longrightarrow>
        current (watcher w') = None \<and> trace w' = trace w @ bar w (- 1) @ cancel_signal w"
  proof (intro impI)
    assume np: "\<not> paused (downloads w)"
      and f: "\<forall>b \<in> set (values_of (items (downloads w))). is_finished b"
    from tick_idle(1,2)[OF np getActiveDownload_None[OF f]] t
    show "current (watcher w') = None \<and> trace w' = trace w @ bar w (- 1) @ cancel_signal w"
      by simp
  qed
  from 1 2 3 4 5 6 show ?thesis unfolding Let_def w_def[symmetric] w'_def[symmetric] by blast
qed

theorem one_uncancelled_download_witness:
  "\<not> paused (downloads (run ex_lagging_events (initialWorld True)))
   \<and> values_of (items (downloads (run ex_lagging_events (initialWorld True))))
       = [(ex_item ''a'' 1)\<lparr>bps := Some 0\<rparr>, (ex_item ''b'' 2)\<lparr>rank := - 1\<rparr>]
   \<and> \<not> is_finished ((ex_item ''a'' 1)\<lparr>bps := Some 0\<rparr>)
   \<and> getActiveDownload (downloads (run ex_lagging_events (initialWorld True)))
       = Some ((ex_item ''b'' 2)\<lparr>rank := - 1\<rparr>)
   \<and> rank ((ex_item ''b'' 2)\<lparr>rank := - 1\<rparr>) \<le> rank ((ex_item ''a'' 1)\<lparr>bps := Some 0\<rparr>)
   \<and> pending_of None (trace (run ex_lagging_events (initialWorld True))) = Some 0
   \<and> trace (step Tick (run ex_lagging_events (initialWorld True)))
       = [SetProgressBar 0, PerformDownload 0 ((ex_item ''a'' 1)\<lparr>bps := Some 0\<rparr>),
          SetProgressBar 0, Emit_graceful_cancel 0,
          PerformDownload 1 ((ex_item ''b'' 2)\<lparr>rank := - 1\<rparr>)]
   \<and> current (watcher (step Tick (run ex_lagging_events (initialWorld True))))
       = Some \<lparr>h_item = (ex_item ''b'' 2)\<lparr>rank := - 1\<rparr>, h_ctx = 1\<rparr>
   \<and> paused (downloads (run ex_paused_events (initialWorld True)))
   \<and> current (watcher (step Tick (run ex_paused_events (initialWorld True)))) = None
   \<and> trace (step Tick (run ex_paused_events (initialWorld True)))
       = [SetProgressBar 0, PerformDownload 0 ((ex_item ''a'' 1)\<lparr>bps := Some 0\<rparr>),
          Emit_graceful_cancel 0, SetProgressBar (- 1)]
   \<and> \<not> paused (downloads (run ex_finished_events (initialWorld True)))
   \<and> values_of (items (downloads (run ex_finished_events (initialWorld True))))
       = [(ex_item ''a'' 1)\<lparr>finished := Some True, bps := Some 0, eta := Some 0\<rparr>]
   \<and> is_finished ((ex_item ''a'' 1)\<lparr>finished := Some True, bps := Some 0, eta := Some 0\<rparr>)
   \<and> current (watcher (step Tick (run ex_finished_events (initialWorld True)))) = None"
proof -
  have nf: "\<not> is_finished ((ex_item ''a'' 1)\<lparr>bps := Some 0\<rparr>)"
    by (simp add: is_finished_def ex_item_def)
  have fi: "is_finished ((ex_item ''a'' 1)\<lparr>finished := Some True, bps := Some 0, eta := Some 0\<rparr>)"
    by (simp add: is_finished_def)
  have le: "rank ((ex_item ''b'' 2)\<lparr>rank := - 1\<rparr>) \<le> rank ((ex_item ''a'' 1)\<lparr>bps := Some 0\<rparr>)"
    by (simp add: ex_item_def)
  have af: "\<forall>b \<in> set (values_of (items (downloads (run ex_finished_events (initialWorld True))))).
         is_finished b"
    using ex_finished_facts(2) fi by simp
  have ne: "\<not> (\<exists>h. current (watcher (run ex_lagging_events (initialWorld True))) = Some h
             \<and> item_id (h_item h) = item_id ((ex_item ''b'' 2)\<lparr>rank := - 1\<rparr>))"
    by (simp add: ex_lagging_facts(4) ex_item_def)
  note L = one_uncancelled_download[of ex_lagging_events True, unfolded Let_def]
  from L have p: "pending_of None (trace (run ex_lagging_events (initialWorld True))) = Some 0"
    by (simp add: ex_lagging_facts(4))
  from L ex_lagging_facts nf ne
  have 1: "trace (step Tick (run ex_lagging_events (initialWorld True)))
       = [SetProgressBar 0, PerformDownload 0 ((ex_item ''a'' 1)\<lparr>bps := Some 0\<rparr>),
          SetProgressBar 0, Emit_graceful_cancel 0,
          PerformDownload 1 ((ex_item ''b'' 2)\<lparr>rank := - 1\<rparr>)]
     \<and> current (watcher (step Tick (run ex_lagging_events (initialWorld True))))
       = Some \<lparr>h_item = (ex_item ''b'' 2)\<lparr>rank := - 1\<rparr>, h_ctx = 1\<rparr>"
    by (auto simp: bar_def cancel_signal_def ex_item_def)
  from one_uncancelled_download[of ex_paused_events True, unfolded Let_def] ex_paused_facts
  have 2: "current (watcher (step Tick (run ex_paused_events (initialWorld True)))) = None
     \<and> trace (step Tick (run ex_paused_events (initialWorld True)))
       = [SetProgressBar 0, PerformDownload 0 ((ex_item ''a'' 1)\<lparr>bps := Some 0\<rparr>),
          Emit_graceful_cancel 0, SetProgressBar (- 1)]"
    by (simp add: bar_def cancel_signal_def)
  from one_uncancelled_download[of ex_finished_events True, unfolded Let_def] ex_finished_facts(1) af
  have 3: "current (watcher (step Tick (run ex_finished_events (initialWorld True)))) = None"
    by blast
  from 1 2 3 p nf fi le ex_lagging_facts(1-3) ex_paused_facts(1) ex_finished_facts(1,2)
  show ?thesis by simp
qed

text \<open>
  The claim as first stated fails: cancellation is a signal, and the handle of the
  cancelled download stays registered until its work settles. After the second tick of
  the example both handles are registered and neither download has settled.
\<close>

theorem two_unsettled_handles_counterexample:
  "map fst (handles (watcher (run ex_events (initialWorld True)))) = [''a'', ''b'']
   \<and> map t_settled (tasks (run ex_events (initialWorld True))) = [False, False]
   \<and> map_option h_ctx (current (watcher (run ex_events (initialWorld True)))) = Some 1"
  by (simp add: watch_defs)

text \<open>
  The \<^verbatim>\<open>finally\<close> block does not clear \<^verbatim>\<open>watcherState.current\<close>: when the download of the
  active item settles with a cancellation it did not get from the watcher, the handle
  stays current, and the next ticks start nothing for it.
\<close>

lemma settled_handle_stays_current:
  "\<not> paused (downloads (run ex_stale_events (initialWorld True)))
   \<and> map_option item_id (getActiveDownload (downloads (run ex_stale_events (initialWorld True))))
       = Some ''a''
   \<and> map t_settled (tasks (run ex_stale_events (initialWorld True))) = [True]
   \<and> map_option h_ctx (current (watcher (run ex_stale_events (initialWorld True)))) = Some 0
   \<and> trace (step Tick (run ex_stale_events (initialWorld True)))
       = trace (run ex_stale_events (initialWorld True)) @ [SetProgressBar 0]"
  by (simp add: watch_defs)

lemma finally_block_interrupted:
  assumes "isCancelled error \<or> isAborted error"
  shows "(isCancelled error \<longrightarrow> downloads (finally_block item error w) = downloads w)
       \<and> (isAborted error \<longrightarrow>
            downloads (finally_block item error w) = downloadDiscarded (item_id item) (downloads w))
       \<and> (\<exists>new. trace (finally_block item error w) = trace w @ new
             \<and> (\<forall>i e es. Dispatch_downloadEnded i e es \<notin> set new))"
proof -
  from assms consider (c) "error = Some Cancelled" | (a) "error = Some Aborted"
    by (auto simp: isCancelled_def isAborted_def)
  then show ?thesis
  proof cases
    case c
    then show ?thesis
      by (auto simp: finally_block_def isCancelled_def isAborted_def Let_def cleanupDiscarded_def emit_def)
  next
    case a
    then show ?thesis
      by (auto simp: finally_block_def isCancelled_def isAborted_def Let_def cleanupDiscarded_def emit_def)
  qed
qed

text \<open>
  Claim C5. When the work of a download settles with a cancellation or an abort, no
  \<^verbatim>\<open>downloadEnded\<close> action is dispatched, and every item that is in the store afterwards is
  exactly as it was before (its \<^verbatim>\<open>err\<close> and \<^verbatim>\<open>finished\<close> fields included): a cancellation
  leaves the downloads state as it is, and otherwise the item has been removed by
  \<^verbatim>\<open>downloadDiscarded\<close>.
\<close>

theorem cancellation_is_not_failure:
  assumes "isCancelled error \<or> isAborted error"
  shows "(isCancelled error \<longrightarrow> downloads (settle c error w) = downloads w)
       \<and> (downloads (settle c error w) = downloads w
           \<or> downloads (settle c error w)
                = downloadDiscarded (item_id (t_item (tasks w ! c))) (downloads w))
       \<and> (\<forall>j it. map_of (items (downloads (settle c error w))) j = Some it
             \<longrightarrow> map_of (items (downloads w)) j = Some it)
       \<and> (\<exists>new. trace (settle c error w) = trace w @ new
             \<and> (\<forall>i e es. Dispatch_downloadEnded i e es \<notin> set new))"
proof (cases "c < length (tasks w) \<and> \<not> t_settled (tasks w ! c)")
  case False
  then have "settle c error w = w" by (auto simp: settle_def)
  then show ?thesis by simp
next
  case True
  define w1 where "w1 = w\<lparr>tasks := (tasks w)[c := (tasks w ! c)
      \<lparr>t_settled := True, t_interrupted := (isCancelled error \<or> isAborted error)\<rparr>]\<rparr>"
  have s: "settle c error w = finally_block (t_item (tasks w ! c)) error w1"
    using True by (simp add: settle_def Let_def w1_def)
  have p: "downloads w1 = downloads w" "trace w1 = trace w" by (simp_all add: w1_def)
  note fb = finally_block_interrupted[OF assms, of "t_item (tasks w ! c)" w1]
  have 1: "isCancelled error \<longrightarrow> downloads (settle c error w) = downloads w"
    using fb s p by simp
  have 2: "downloads (settle c error w) = downloads w
           \<or> downloads (settle c error w)
                = downloadDiscarded (item_id (t_item (tasks w ! c))) (downloads w)"
    using fb s p assms by auto
  have 3: "\<forall>j it. map_of (items (downloads (settle c error w))) j = Some it
             \<longrightarrow> map_of (items (downloads w)) j = Some it"
    using 2 by (auto simp: downloadDiscarded_map_of split: if_splits)
  have 4: "\<exists>new. trace (settle c error w) = trace w @ new
             \<and> (\<forall>i e es. Dispatch_downloadEnded i e es \<notin> set new)"
    using fb s p by simp
  from 1 2 3 4 show ?thesis by blast
qed

theorem cancellation_is_not_failure_witness:
  "isCancelled (Some Cancelled) \<and> isAborted (Some Aborted)
   \<and> 0 < length (tasks ex_started) \<and> \<not> t_settled (tasks ex_started ! 0)
   \<and> map_of (items (downloads ex_started)) ''a'' = Some ((ex_item ''a'' 1)\<lparr>bps := Some 0\<rparr>)
   \<and> map_of (items (downloads (settle 0 (Some Cancelled) ex_started))) ''a''
        = Some ((ex_item ''a'' 1)\<lparr>bps := Some 0\<rparr>)
   \<and> trace (settle 0 (Some Cancelled) ex_started) = trace ex_started @ []
   \<and> items (downloads (settle 0 (Some Aborted) ex_started)) = []"
proof -
  have c: "isCancelled (Some Cancelled) \<or> isAborted (Some Cancelled)" by (simp add: isCancelled_def)
  have a: "isCancelled (Some Aborted) \<or> isAborted (Some Aborted)" by (simp add: isAborted_def)
  from cancellation_is_not_failure[OF c, of 0 ex_started]
       cancellation_is_not_failure[OF a, of 0 ex_started]
  show ?thesis
    by (simp add: ex_started_def eval_defs)
qed

section \<open>Properties of the deploy engine\<close>

lemma set_difference: "set (difference xs ys) = set xs - set ys"
  by (auto simp: difference_def)

lemma set_merge_into: "set (merge_into fs staged) = set fs \<union> set staged"
  by (auto simp: merge_into_def)

lemma set_wipe_all:
  "\<forall>f \<in> set dinosaurs. ok f \<Longrightarrow> set (wipe_all ok dinosaurs fs) = set fs - set dinosaurs"
  by (auto simp: wipe_all_def)

lemma deploy_not_short:
  "\<not> short_circuits env stageFiles \<Longrightarrow> \<not> handler_throws env stageFiles \<Longrightarrow>
   deploy env cave stageFiles d = deploy_rest env cave stageFiles d"
  by (auto simp: deploy_def short_circuits_def handler_throws_def split: list.splits SingleOutcome.splits)

lemma deploy_short:
  "short_circuits env stageFiles \<Longrightarrow> deploy env cave stageFiles d = (d, Inr ok_result)"
  by (auto simp: deploy_def short_circuits_def handled_upstream_def
      split: list.splits SingleOutcome.splits option.splits)

lemma deploy_throws:
  "handler_throws env stageFiles \<Longrightarrow> \<exists>e. deploy env cave stageFiles d = (d, Inl e)"
  by (auto simp: deploy_def handler_throws_def split: list.splits SingleOutcome.splits)

lemma deploy_rest_ok:
  assumes "deploy_rest env cave stageFiles d = (d', Inr res)"
  shows "\<exists>destFiles. previous_files (glob_ok env) d = Some destFiles
           \<and> (\<forall>f \<in> set (difference destFiles stageFiles). wipe_ok env f)
           \<and> mkdir_ok env \<and> ditto env = Ditto_ok \<and> write_receipt env = Write_ok
           \<and> res = ok_result
           \<and> d' = \<lparr>d_files = merge_into (wipe_all (wipe_ok env) (difference destFiles stageFiles) (d_files d)) stageFiles,
                   d_receipt = Parsed \<lparr>r_cave = cave, r_files = Some stageFiles\<rparr>\<rparr>"
  using assms
  by (auto simp: deploy_rest_def Let_def split: if_splits option.splits DittoOutcome.splits WriteOutcome.splits)

lemma deploy_rest_receipt:
  assumes "deploy_rest env cave stageFiles d = (d', r)" "d_receipt d' \<noteq> d_receipt d"
  shows "\<exists>destFiles. previous_files (glob_ok env) d = Some destFiles
           \<and> (\<forall>f \<in> set (difference destFiles stageFiles). wipe_ok env f)
           \<and> mkdir_ok env \<and> ditto env = Ditto_ok"
  using assms
  by (auto simp: deploy_rest_def Let_def split: if_splits option.splits DittoOutcome.splits WriteOutcome.splits)

lemma deploy_rest_fails:
  assumes "deploy_rest env cave stageFiles d = (d', Inl e)" "write_receipt env = Write_ok"
  shows "d_receipt d' = d_receipt d"
  using assms
  by (auto simp: deploy_rest_def Let_def split: if_splits option.splits DittoOutcome.splits WriteOutcome.splits)

lemma deploy_cases:
  "deploy env cave stageFiles d = (d, Inr ok_result) \<and> short_circuits env stageFiles
   \<or> (\<exists>e. deploy env cave stageFiles d = (d, Inl e)) \<and> handler_throws env stageFiles
   \<or> deploy env cave stageFiles d = deploy_rest env cave stageFiles d
       \<and> \<not> short_circuits env stageFiles \<and> \<not> handler_throws env stageFiles"
  using deploy_short[of env stageFiles cave d] deploy_throws[of env stageFiles cave d]
    deploy_not_short[of env stageFiles cave d]
  by blast

lemma unreadable_read: "unreadable rf \<Longrightarrow> read_receipt rf = []"
  by (auto simp: unreadable_def read_receipt_def split: ReceiptFile.splits)

lemma smooth_abc:
  "deploy smooth_env None [''b'', ''c'', ''d''] dest_abc
     = (\<lparr>d_files = [''b'', ''c'', ''d''], d_receipt = receipt_of [''b'', ''c'', ''d'']\<rparr>, Inr ok_result)"
  by (simp add: deploy_def deploy_rest_def smooth_env_def dest_abc_def receipt_of_def
      previous_files_def read_receipt_def difference_def wipe_all_def merge_into_def always_def Let_def)

lemma failing_abc:
  "deploy failing_merge_env None [''b'', ''c'', ''d''] dest_abc
     = (\<lparr>d_files = [''b'', ''c''], d_receipt = receipt_of [''a'', ''b'', ''c'']\<rparr>, Inl ''ditto'')"
  by (simp add: deploy_def deploy_rest_def smooth_env_def failing_merge_env_def dest_abc_def receipt_of_def
      previous_files_def read_receipt_def difference_def wipe_all_def merge_into_def always_def Let_def)

lemma smooth_fresh:
  "deploy smooth_env None [''b'', ''c''] dest_fresh
     = (\<lparr>d_files = [''b'', ''c''], d_receipt = receipt_of [''b'', ''c'']\<rparr>, Inr ok_result)"
  by (simp add: deploy_def deploy_rest_def smooth_env_def dest_fresh_def receipt_of_def
      previous_files_def read_receipt_def difference_def wipe_all_def merge_into_def always_def Let_def)

text \<open>
  Claim C3, amended. For every previous file set and every staging file set, a successful
  deploy that the single-file handler has not taken over, on a destination whose files are
  all in the previous file set or staged, leaves the destination with exactly the staging
  file set and writes a receipt that lists exactly the staging file set: the orphans
  (previous set minus staging set) are deleted and the staging files are merged in.
  A destination \<open>{a, b, c}\<close> with staging \<open>{b, c, d}\<close> yields \<open>{b, c, d}\<close> and the receipt
  \<open>{b, c, d}\<close>.
\<close>

theorem deploy_orphans_removed:
  assumes "deploy env cave stageFiles d = (d', Inr res)"
    and "\<not> short_circuits env stageFiles"
    and "\<forall>prev. previous_files (glob_ok env) d = Some prev \<longrightarrow>
           set (d_files d) \<subseteq> set prev \<union> set stageFiles"
  shows "set (d_files d') = set stageFiles
       \<and> d_receipt d' = Parsed \<lparr>r_cave = cave, r_files = Some stageFiles\<rparr>
       \<and> (\<exists>prev. previous_files (glob_ok env) d = Some prev
            \<and> d_files d' = merge_into (wipe_all (wipe_ok env) (difference prev stageFiles) (d_files d)) stageFiles)"
proof -
  from deploy_cases[of env cave stageFiles d] assms(1,2)
  have "deploy_rest env cave stageFiles d = (d', Inr res)" by auto
  from deploy_rest_ok[OF this] obtain prev where
    p: "previous_files (glob_ok env) d = Some prev"
       "\<forall>f \<in> set (difference prev stageFiles). wipe_ok env f"
       "d' = \<lparr>d_files = merge_into (wipe_all (wipe_ok env) (difference prev stageFiles) (d_files d)) stageFiles,
                   d_receipt = Parsed \<lparr>r_cave = cave, r_files = Some stageFiles\<rparr>\<rparr>"
    by blast
  from assms(3) p(1) have sub: "set (d_files d) \<subseteq> set prev \<union> set stageFiles" by simp
  have "set (d_files d') = (set (d_files d) - set (difference prev stageFiles)) \<union> set stageFiles"
    using p(2,3) by (simp add: set_merge_into set_wipe_all)
  with sub have "set (d_files d') = set stageFiles" by (auto simp: set_difference)
  with p show ?thesis by simp
qed

theorem deploy_orphans_removed_witness:
  "deploy smooth_env None [''b'', ''c'', ''d''] dest_abc
     = (\<lparr>d_files = [''b'', ''c'', ''d''], d_receipt = receipt_of [''b'', ''c'', ''d'']\<rparr>, Inr ok_result)
   \<and> \<not> short_circuits smooth_env [''b'', ''c'', ''d'']
   \<and> previous_files (glob_ok smooth_env) dest_abc = Some [''a'', ''b'', ''c'']
   \<and> set (d_files dest_abc) \<subseteq> set [''a'', ''b'', ''c''] \<union> set [''b'', ''c'', ''d'']
   \<and> set [''b'', ''c'', ''d''] = {''b'', ''c'', ''d''}
   \<and> receipt_of [''b'', ''c'', ''d''] = Parsed \<lparr>r_cave = None, r_files = Some [''b'', ''c'', ''d'']\<rparr>"
proof -
  have ns: "\<not> short_circuits smooth_env [''b'', ''c'', ''d'']" by (simp add: short_circuits_def)
  have pf: "previous_files (glob_ok smooth_env) dest_abc = Some [''a'', ''b'', ''c'']"
    by (simp add: previous_files_def read_receipt_def dest_abc_def receipt_of_def)
  have sub: "\<forall>prev. previous_files (glob_ok smooth_env) dest_abc = Some prev \<longrightarrow>
           set (d_files dest_abc) \<subseteq> set prev \<union> set [''b'', ''c'', ''d'']"
    using pf by (auto simp: dest_abc_def)
  from deploy_orphans_removed[OF smooth_abc ns sub] smooth_abc ns pf
  show ?thesis by (simp add: dest_abc_def receipt_of_def)
qed

text \<open>
  The claim as first stated fails when staging holds a single file and the handler answers
  \<^verbatim>\<open>deployed\<close>: the deploy succeeds, and the engine has neither touched the destination nor
  written a receipt.
\<close>

theorem deploy_single_file_counterexample:
  "snd (deploy upstream_env None [''d''] dest_abc) = Inr ok_result
   \<and> set (d_files (fst (deploy upstream_env None [''d''] dest_abc))) \<noteq> set [''d'']
   \<and> d_receipt (fst (deploy upstream_env None [''d''] dest_abc)) \<noteq> receipt_of [''d'']"
  by (simp add: deploy_def upstream_env_def says_deployed_def handled_upstream_def dest_abc_def receipt_of_def)

text \<open>
  Claim C4, amended. The receipt is written only after the merge of staging into the
  destination has succeeded: a deploy changes the receipt only when creating the
  directory, every deletion and the merge have succeeded, so a deploy that fails before
  the write leaves the receipt as it was; and after every successful deploy that the
  single-file handler has not taken over, the receipt is \<^verbatim>\<open>{cave, files: stageFiles}\<close>,
  whatever the destination held before.
\<close>

theorem receipt_written_last:
  assumes "deploy env cave stageFiles d = (d', r)"
  shows "(d_receipt d' \<noteq> d_receipt d \<longrightarrow>
            mkdir_ok env \<and> ditto env = Ditto_ok \<and> \<not> short_circuits env stageFiles
            \<and> (\<exists>prev. previous_files (glob_ok env) d = Some prev
                  \<and> (\<forall>f \<in> set (difference prev stageFiles). wipe_ok env f)))
       \<and> ((\<exists>e. r = Inl e) \<and> write_receipt env = Write_ok \<longrightarrow> d_receipt d' = d_receipt d)
       \<and> ((\<exists>res. r = Inr res) \<and> \<not> short_circuits env stageFiles \<longrightarrow>
            d_receipt d' = Parsed \<lparr>r_cave = cave, r_files = Some stageFiles\<rparr>)"
proof -
  from deploy_cases[of env cave stageFiles d]
  consider (short) "deploy env cave stageFiles d = (d, Inr ok_result)" "short_circuits env stageFiles"
    | (throws) e where "deploy env cave stageFiles d = (d, Inl e)"
    | (rest) "deploy env cave stageFiles d = deploy_rest env cave stageFiles d"
        "\<not> short_circuits env stageFiles"
    by blast
  then show ?thesis
  proof cases
    case short with assms show ?thesis by simp
  next
    case throws with assms show ?thesis by auto
  next
    case rest
    with assms have dr: "deploy_rest env cave stageFiles d = (d', r)" by simp
    have 1: "d_receipt d' \<noteq> d_receipt d \<longrightarrow>
            mkdir_ok env \<and> ditto env = Ditto_ok \<and> \<not> short_circuits env stageFiles
            \<and> (\<exists>prev. previous_files (glob_ok env) d = Some prev
                  \<and> (\<forall>f \<in> set (difference prev stageFiles). wipe_ok env f))"
      using deploy_rest_receipt[OF dr] rest(2) by blast
    have 2: "(\<exists>e. r = Inl e) \<and> write_receipt env = Write_ok \<longrightarrow> d_receipt d' = d_receipt d"
      using deploy_rest_fails[of env cave stageFiles d d'] dr by blast
    have 3: "(\<exists>res. r = Inr res) \<and> \<not> short_circuits env stageFiles \<longrightarrow>
            d_receipt d' = Parsed \<lparr>r_cave = cave, r_files = Some stageFiles\<rparr>"
      using deploy_rest_ok[of env cave stageFiles d d'] dr by auto
    from 1 2 3 show ?thesis by blast
  qed
qed

theorem receipt_written_last_witness:
  "deploy failing_merge_env None [''b'', ''c'', ''d''] dest_abc
     = (\<lparr>d_files = [''b'', ''c''], d_receipt = receipt_of [''a'', ''b'', ''c'']\<rparr>, Inl ''ditto'')
   \<and> write_receipt failing_merge_env = Write_ok
   \<and> d_receipt dest_abc = receipt_of [''a'', ''b'', ''c'']
   \<and> deploy smooth_env None [''b'', ''c''] dest_fresh
     = (\<lparr>d_files = [''b'', ''c''], d_receipt = receipt_of [''b'', ''c'']\<rparr>, Inr ok_result)
   \<and> \<not> short_circuits smooth_env [''b'', ''c'']
   \<and> d_receipt dest_fresh \<noteq> receipt_of [''b'', ''c'']
   \<and> mkdir_ok smooth_env \<and> ditto smooth_env = Ditto_ok
   \<and> receipt_of [''b'', ''c''] = Parsed \<lparr>r_cave = None, r_files = Some [''b'', ''c'']\<rparr>"
  using receipt_written_last[OF failing_abc] receipt_written_last[OF smooth_fresh] failing_abc smooth_fresh
  by (simp add: failing_merge_env_def smooth_env_def dest_abc_def dest_fresh_def receipt_of_def short_circuits_def)

text \<open>
  The claim as first stated fails on a fresh destination when the handler takes over the
  single staged file: the deploy succeeds and there is still no receipt.
\<close>

theorem receipt_single_file_counterexample:
  "snd (deploy upstream_env None [''setup.exe''] dest_fresh) = Inr ok_result
   \<and> d_receipt (fst (deploy upstream_env None [''setup.exe''] dest_fresh)) = Missing"
  by (simp add: deploy_def upstream_env_def says_deployed_def handled_upstream_def dest_fresh_def)

text \<open>
  Claim C7. When the receipt is missing, unparsable or lists no files, the previous file
  set is the listing of the destination, the orphans are that listing minus the staging
  files, and the deploy does not fail on account of the receipt: when every other operation
  succeeds it returns \<^verbatim>\<open>ok\<close>, and, unless the single-file handler has taken over, it has
  deleted those orphans, merged the staging files and written the new receipt.
\<close>

theorem receipt_fallback:
  assumes "unreadable (d_receipt d)"
  shows "previous_files True d = Some (d_files d)
       \<and> set (difference (d_files d) stageFiles) = set (d_files d) - set stageFiles
       \<and> (operations_succeed env stageFiles d \<longrightarrow>
            snd (deploy env cave stageFiles d) = Inr ok_result)
       \<and> (operations_succeed env stageFiles d \<and> \<not> short_circuits env stageFiles \<longrightarrow>
            deploy env cave stageFiles d =
              (\<lparr>d_files = merge_into
                   (wipe_all (wipe_ok env) (difference (d_files d) stageFiles) (d_files d)) stageFiles,
                d_receipt = Parsed \<lparr>r_cave = cave, r_files = Some stageFiles\<rparr>\<rparr>, Inr ok_result)
            \<and> set (d_files (fst (deploy env cave stageFiles d))) = set stageFiles)"
proof -
  have rr: "read_receipt (d_receipt d) = []" using assms by (rule unreadable_read)
  have 1: "previous_files True d = Some (d_files d)" by (simp add: previous_files_def rr)
  have 2: "set (difference (d_files d) stageFiles) = set (d_files d) - set stageFiles"
    by (rule set_difference)
  have rest: "operations_succeed env stageFiles d \<Longrightarrow>
      deploy_rest env cave stageFiles d =
              (\<lparr>d_files = merge_into
                   (wipe_all (wipe_ok env) (difference (d_files d) stageFiles) (d_files d)) stageFiles,
                d_receipt = Parsed \<lparr>r_cave = cave, r_files = Some stageFiles\<rparr>\<rparr>, Inr ok_result)"
    by (auto simp: operations_succeed_def deploy_rest_def previous_files_def rr Let_def set_difference)
  have 3: "operations_succeed env stageFiles d \<longrightarrow> snd (deploy env cave stageFiles d) = Inr ok_result"
  proof
    assume os: "operations_succeed env stageFiles d"
    then have nt: "\<not> handler_throws env stageFiles" by (simp add: operations_succeed_def)
    show "snd (deploy env cave stageFiles d) = Inr ok_result"
    proof (cases "short_circuits env stageFiles")
      case True then show ?thesis by (simp add: deploy_short)
    next
      case False then show ?thesis using deploy_not_short[OF False nt] rest[OF os] by simp
    qed
  qed
  have 4: "operations_succeed env stageFiles d \<and> \<not> short_circuits env stageFiles \<longrightarrow>
            deploy env cave stageFiles d =
              (\<lparr>d_files = merge_into
                   (wipe_all (wipe_ok env) (difference (d_files d) stageFiles) (d_files d)) stageFiles,
                d_receipt = Parsed \<lparr>r_cave = cave, r_files = Some stageFiles\<rparr>\<rparr>, Inr ok_result)
            \<and> set (d_files (fst (deploy env cave stageFiles d))) = set stageFiles"
  proof
    assume a: "operations_succeed env stageFiles d \<and> \<not> short_circuits env stageFiles"
    then have nt: "\<not> handler_throws env stageFiles" by (simp add: operations_succeed_def)
    from a have w: "\<forall>f \<in> set (difference (d_files d) stageFiles). wipe_ok env f"
      by (auto simp: operations_succeed_def set_difference)
    have e: "deploy env cave stageFiles d =
              (\<lparr>d_files = merge_into
                   (wipe_all (wipe_ok env) (difference (d_files d) stageFiles) (d_files d)) stageFiles,
                d_receipt = Parsed \<lparr>r_cave = cave, r_files = Some stageFiles\<rparr>\<rparr>, Inr ok_result)"
      using deploy_not_short[of env stageFiles cave d] nt a rest by simp
    have "set (merge_into
                   (wipe_all (wipe_ok env) (difference (d_files d) stageFiles) (d_files d)) stageFiles)
          = set stageFiles"
      using w by (auto simp: set_merge_into set_wipe_all set_difference)
    with e show "deploy env cave stageFiles d =
              (\<lparr>d_files = merge_into
                   (wipe_all (wipe_ok env) (difference (d_files d) stageFiles) (d_files d)) stageFiles,
                d_receipt = Parsed \<lparr>r_cave = cave, r_files = Some stageFiles\<rparr>\<rparr>, Inr ok_result)
            \<and> set (d_files (fst (deploy env cave stageFiles d))) = set stageFiles"
      by simp
  qed
  from 1 2 3 4 show ?thesis by blast
qed

theorem receipt_fallback_witness:
  "unreadable (d_receipt dest_no_receipt)
   \<and> operations_succeed smooth_env [''b'', ''c'', ''d''] dest_no_receipt
   \<and> \<not> short_circuits smooth_env [''b'', ''c'', ''d'']
   \<and> previous_files True dest_no_receipt = Some [''a'', ''b'', ''c'']
   \<and> difference (d_files dest_no_receipt) [''b'', ''c'', ''d''] = [''a'']
   \<and> deploy smooth_env None [''b'', ''c'', ''d''] dest_no_receipt
       = (\<lparr>d_files = [''b'', ''c'', ''d''], d_receipt = receipt_of [''b'', ''c'', ''d'']\<rparr>, Inr ok_result)"
proof -
  have u: "unreadable (d_receipt dest_no_receipt)"
    by (simp add: unreadable_def dest_no_receipt_def)
  have os: "operations_succeed smooth_env [''b'', ''c'', ''d''] dest_no_receipt"
    by (simp add: operations_succeed_def handler_throws_def smooth_env_def always_def)
  have ns: "\<not> short_circuits smooth_env [''b'', ''c'', ''d'']" by (simp add: short_circuits_def)
  from receipt_fallback[OF u, of "[''b'', ''c'', ''d'']" smooth_env None] u os ns
  show ?thesis
    by (simp add: dest_no_receipt_def receipt_of_def difference_def wipe_all_def merge_into_def
        smooth_env_def always_def)
qed

section \<open>Properties of the task runner\<close>

text \<open>
  When the error callback returns, \<^verbatim>\<open>asTask\<close> dispatches \<^verbatim>\<open>taskEnded\<close> exactly once, as its
  last effect, after the task handle is removed and the logger is closed. The callback is
  called exactly when the work threw an error that is neither a cancellation nor an abort
  and a callback was given.
\<close>

lemma asTask_ends_once:
  assumes "callback_returns opts"
  shows "\<exists>pre mid. fst (asTask uuid now close_throws opts)
            = pre @ [Remove_task uuid, Logger_close] @ mid
                @ [Dispatch_taskEnded uuid (map_option error_to_string (w_thrown (work opts)))]
          \<and> \<not> list_ex is_taskEnded (pre @ mid)
          \<and> snd (asTask uuid now close_throws opts) = Inr ()"
proof -
  let ?t1 = "[Dispatch_taskStarted uuid (name opts) (gameId opts) now, Register_task uuid]
              @ map (Dispatch_taskProgress uuid) (w_progress (work opts))"
  have np: "\<not> list_ex is_taskEnded ?t1" by (induction "w_progress (work opts)") (auto simp: list_ex_iff)
  show ?thesis
  proof (cases "w_thrown (work opts)")
    case None
    show ?thesis
      apply (rule exI[of _ ?t1])
      apply (rule exI[of _ "if close_throws then [Warn ''Couldn't close logger''] else []"])
      using np None by (auto simp: asTask_def Let_def list_ex_iff)
  next
    case (Some e)
    show ?thesis
    proof (cases "onError opts")
      case None
      show ?thesis
        apply (rule exI[of _ ?t1])
        apply (rule exI[of _ "(if close_throws then [Warn ''Couldn't close logger''] else [])
            @ [Warn (if e = Cancelled then ''cancelled'' else if e = Aborted then ''aborted'' else ''threw'')]"])
        using np None Some by (auto simp: asTask_def Let_def list_ex_iff isCancelled_def isAborted_def)
    next
      case (Some cb)
      show ?thesis
        apply (rule exI[of _ ?t1])
        apply (rule exI[of _ "(if close_throws then [Warn ''Couldn't close logger''] else [])
            @ (if e = Cancelled then [Warn ''cancelled''] else if e = Aborted then [Warn ''aborted'']
               else [Warn ''threw'', Call_onError e (w_log (work opts))])"])
        using np Some \<open>w_thrown (work opts) = Some e\<close> assms
        by (auto simp: asTask_def Let_def list_ex_iff isCancelled_def isAborted_def callback_returns_def)
    qed
  qed
qed

lemma asTask_onError_iff:
  "list_ex is_onError (fst (asTask uuid now close_throws opts))
     \<longleftrightarrow> (\<exists>e cb. w_thrown (work opts) = Some e \<and> e \<noteq> Cancelled \<and> e \<noteq> Aborted \<and> onError opts = Some cb)"
  by (auto simp: asTask_def Let_def list_ex_iff isCancelled_def isAborted_def
      split: option.splits CallbackOutcome.splits)

text \<open>
  Claim C8. Every run of \<^verbatim>\<open>asTask\<close> dispatches exactly one \<^verbatim>\<open>taskEnded\<close>, after the cleanup,
  whatever the outcome. The code does not when the work throws a genuine error and the
  error callback throws in turn: the call of the callback is the last effect, no
  \<^verbatim>\<open>taskEnded\<close> is dispatched, and the promise of \<^verbatim>\<open>asTask\<close> is rejected.
\<close>

theorem asTask_rejecting_callback:
  "asTask ''t1'' 0 False ex_failing_opts =
     ([Dispatch_taskStarted ''t1'' Task_launch 1 0, Register_task ''t1'', Remove_task ''t1'',
       Logger_close, Warn ''threw'', Call_onError (Failure ''boom'' ''stack'') ''log''],
      Inl (Failure ''modal failed'' []))"
  by (simp add: asTask_def ex_failing_opts_def rejecting_def isCancelled_def isAborted_def Let_def)

section \<open>Properties of the update checker\<close>

lemma several_recent:
  "1 < length rs \<Longrightarrow>
   by_timestamp h cave g rs downloadKey rv =
     ([Dispatch_gameUpdateAvailable (cr_id cave)
         \<lparr>u_game = g, u_recentUploads = rs, u_downloadKey = downloadKey,
          u_incremental = False, u_upgradePath = None\<rparr>],
      Inr (rv\<lparr>r_hasUpgrade := Some True\<rparr>))"
  by (cases rs; cases "tl rs") (auto simp: by_timestamp_def Let_def)

text \<open>
  The decision on builds and uploads, taken by itself, is the table of the claim: a
  different build id with a computed patch path gives \<^verbatim>\<open>hasUpgrade = true\<close> and announces
  the incremental update; the same build id gives no upgrade; no tracked build id and
  several recent uploads announce them all. When \<^verbatim>\<open>findUpgradePath\<close> throws, the error is
  returned.
\<close>

lemma decision_table:
  "cr_uploadId cave = Some uid \<and> cr_buildId cave = Some bid \<and> uid \<noteq> 0 \<and> bid \<noteq> 0
     \<and> find (\<lambda>u. upload_id u = uid) uploads = Some upl
     \<and> upload_buildId upl = Some bid' \<and> bid' \<noteq> 0 \<and> bid' \<noteq> bid
     \<and> findUpgradePath env upl bid = Inr (upgradePath, totalSize)
   \<Longrightarrow> decide env cave noisy g uploads downloadKey rv =
        ((if noisy then [Dispatch_statusMessage ''status.game_update.found'' (title g)] else [])
           @ [Dispatch_gameUpdateAvailable (cr_id cave)
                \<lparr>u_game = g, u_recentUploads = [upl], u_downloadKey = downloadKey,
                 u_incremental = True, u_upgradePath = Some upgradePath\<rparr>],
         Inr (rv\<lparr>r_hasUpgrade := Some True\<rparr>))"
  "cr_uploadId cave = Some uid \<and> cr_buildId cave = Some bid \<and> uid \<noteq> 0 \<and> bid \<noteq> 0
     \<and> find (\<lambda>u. upload_id u = uid) uploads = Some upl
     \<and> upload_buildId upl = Some bid
   \<Longrightarrow> decide env cave noisy g uploads downloadKey rv = ([], Inr rv)"
  "\<not> truthy_num (cr_buildId cave) \<and> 1 < length (recent cave uploads)
   \<Longrightarrow> decide env cave noisy g uploads downloadKey rv =
        ([Dispatch_gameUpdateAvailable (cr_id cave)
            \<lparr>u_game = g, u_recentUploads = recent cave uploads,
             u_downloadKey = downloadKey, u_incremental = False, u_upgradePath = None\<rparr>],
         Inr (rv\<lparr>r_hasUpgrade := Some True\<rparr>))"
proof -
  show "cr_uploadId cave = Some uid \<and> cr_buildId cave = Some bid \<and> uid \<noteq> 0 \<and> bid \<noteq> 0
     \<and> find (\<lambda>u. upload_id u = uid) uploads = Some upl
     \<and> upload_buildId upl = Some bid' \<and> bid' \<noteq> 0 \<and> bid' \<noteq> bid
     \<and> findUpgradePath env upl bid = Inr (upgradePath, totalSize)
   \<Longrightarrow> decide env cave noisy g uploads downloadKey rv =
        ((if noisy then [Dispatch_statusMessage ''status.game_update.found'' (title g)] else [])
           @ [Dispatch_gameUpdateAvailable (cr_id cave)
                \<lparr>u_game = g, u_recentUploads = [upl], u_downloadKey = downloadKey,
                 u_incremental = True, u_upgradePath = Some upgradePath\<rparr>],
         Inr (rv\<lparr>r_hasUpgrade := Some True\<rparr>))"
    by (simp add: decide_def Let_def truthy_num_def)
  show "cr_uploadId cave = Some uid \<and> cr_buildId cave = Some bid \<and> uid \<noteq> 0 \<and> bid \<noteq> 0
     \<and> find (\<lambda>u. upload_id u = uid) uploads = Some upl
     \<and> upload_buildId upl = Some bid
   \<Longrightarrow> decide env cave noisy g uploads downloadKey rv = ([], Inr rv)"
    by (simp add: decide_def Let_def truthy_num_def)
  show "\<not> truthy_num (cr_buildId cave) \<and> 1 < length (recent cave uploads)
   \<Longrightarrow> decide env cave noisy g uploads downloadKey rv =
        ([Dispatch_gameUpdateAvailable (cr_id cave)
            \<lparr>u_game = g, u_recentUploads = recent cave uploads,
             u_downloadKey = downloadKey, u_incremental = False, u_upgradePath = None\<rparr>],
         Inr (rv\<lparr>r_hasUpgrade := Some True\<rparr>))"
  proof -
    assume h: "\<not> truthy_num (cr_buildId cave) \<and> 1 < length (recent cave uploads)"
    then have "decide env cave noisy g uploads downloadKey rv
               = by_timestamp False cave g (recent cave uploads) downloadKey rv"
      by (auto simp: decide_def Let_def truthy_num_def recent_def split: option.splits)
    with h several_recent[of "recent cave uploads" False cave g downloadKey rv]
    show ?thesis by simp
  qed
qed

lemma upgrade_path_fails:
  assumes "cr_uploadId cave = Some uid" "cr_buildId cave = Some bid" "uid \<noteq> 0" "bid \<noteq> 0"
    and "find (\<lambda>u. upload_id u = uid) uploads = Some upl"
    and "upload_buildId upl = Some bid'" "bid' \<noteq> 0" "bid' \<noteq> bid"
    and "findUpgradePath env upl bid = Inl e"
  shows "snd (decide env cave noisy g uploads downloadKey rv) = Inr (failed e)"
  using assms by (simp add: decide_def Let_def truthy_num_def)

text \<open>
  The check never gets to that decision: a cave that passes the three early tests makes
  \<^verbatim>\<open>_doCheckForGameUpdate\<close> throw at \<^verbatim>\<open>getUserMarket()\<close>, whatever its builds and uploads.
\<close>

lemma check_throws_unless_skipped:
  "snd (doCheckForGameUpdate env cave noisy) = Inr skipped
   \<or> doCheckForGameUpdate env cave noisy
        = ([], Inl ''ReferenceError: getUserMarket is not defined'')"
  by (simp add: doCheckForGameUpdate_def getUserMarket_def)


section \<open>Properties of the launch\<close>

text \<open>
  Claim C9. A cave whose \<^verbatim>\<open>morphing\<close> flag is set is never launched: \<^verbatim>\<open>performLaunch\<close>
  returns without entering the launch path, after it has queued a download with the reason
  \<^verbatim>\<open>heal\<close> for that cave, with the upload and the build of the cave.
\<close>

theorem morphing_cave_is_healed:
  assumes "morphing cave"
  shows "performLaunch has_credentials outcome cave g =
           ([Launch_statusMessage ''status.repairing_game'' (title g),
             Dispatch_queueDownload
               \<lparr>q_reason = Heal, q_game = g, q_caveId = Some (c_id cave),
                q_upload = c_upload cave, q_build = c_build cave\<rparr>],
            Inr ())
       \<and> (\<forall>e \<in> set (fst (performLaunch has_credentials outcome cave g)). \<not> launches e)"
  using assms by (simp add: performLaunch_def)

theorem morphing_cave_is_healed_witness:
  "morphing ex_morphing_cave
   \<and> performLaunch True Exited ex_morphing_cave (ex_game 1) =
       ([Launch_statusMessage ''status.repairing_game'' ''game'',
         Dispatch_queueDownload
           \<lparr>q_reason = Heal, q_game = ex_game 1, q_caveId = Some ''cave-1'',
            q_upload = Some (ex_upload 3 (Some 7) 100), q_build = Some \<lparr>build_id = 7\<rparr>\<rparr>],
        Inr ())
   \<and> \<not> launches (Launch_statusMessage ''status.repairing_game'' ''game'')"
proof -
  have m: "morphing ex_morphing_cave" by (simp add: ex_morphing_cave_def)
  from morphing_cave_is_healed[OF m, of True Exited "ex_game 1"] m
  show ?thesis by (simp add: ex_morphing_cave_def ex_game_def)
qed

end
